theory Spec2Isabelle
  imports Main "HOL-Library.Word"
begin

section \<open>The scraper worker (scraperWorker.js) as a shallow embedding\<close>

text \<open>
  The worker drives a remote browser: it scrolls a catalogue page until the number of
  product cards is stable, extracts one record per card, validates the records, retries
  the extraction a bounded number of times, and follows the "Next Page" control until the
  last page or a page cap. The browser, the timers and the file system are outside the
  program; here they are an environment of total functions on an abstract world \<open>'w\<close>,
  each returning either a thrown error or a value, and the program threads the world
  together with a trace of the calls it made. A loop that may run forever returns
  \<open>None\<close>. Console output (and with it the \<open>verbose\<close> flag and the worker id, which
  only feed console output) is not modelled.
\<close>

subsection \<open>JavaScript strings\<close>

text \<open>
  A JavaScript string is a sequence of UTF-16 code units. \<open>js\<close> embeds an ASCII literal.
\<close>

type_synonym jschar = "16 word"
type_synonym jsstring = "jschar list"

definition js :: "string \<Rightarrow> jsstring" where
  "js cs = map (\<lambda>c. of_nat (of_char c)) cs"

text \<open>The regular expression class \<open>\d\<close> (without the unicode flag) is \<open>[0-9]\<close>.\<close>

definition isDigit :: "jschar \<Rightarrow> bool" where
  "isDigit c = (0x30 \<le> c \<and> c \<le> 0x39)"

text \<open>
  \<open>String.prototype.trim\<close> removes WhiteSpace and LineTerminator code points from both
  ends: TAB, LF, VT, FF, CR, SP, NBSP, the other space separators, LS, PS and the BOM.
\<close>

definition isWhiteSpace :: "jschar \<Rightarrow> bool" where
  "isWhiteSpace c = (c \<in> set [0x9, 0xA, 0xB, 0xC, 0xD, 0x20, 0xA0, 0x1680,
      0x2000, 0x2001, 0x2002, 0x2003, 0x2004, 0x2005, 0x2006, 0x2007, 0x2008, 0x2009,
      0x200A, 0x2028, 0x2029, 0x202F, 0x205F, 0x3000, 0xFEFF])"

definition trim :: "jsstring \<Rightarrow> jsstring" where
  "trim t = rev (dropWhile isWhiteSpace (rev (dropWhile isWhiteSpace t)))"

text \<open>\<open>s.replace(/\D+/g, "")\<close>: every maximal run of non-digits is deleted.\<close>

definition stripNonDigits :: "jsstring \<Rightarrow> jsstring" where
  "stripNonDigits t = filter isDigit t"

text \<open>\<open>s || d\<close> on strings: the empty string is the only falsy string.\<close>

definition orElse :: "jsstring \<Rightarrow> jsstring \<Rightarrow> jsstring" where
  "orElse t d = (if t = [] then d else t)"

text \<open>\<open>s.replace(/,/g, " ")\<close>.\<close>

definition replaceCommas :: "jsstring \<Rightarrow> jsstring" where
  "replaceCommas t = map (\<lambda>c. if c = 0x2C then 0x20 else c) t"

text \<open>\<open>s.includes(sub)\<close>.\<close>

fun includes_js :: "jsstring \<Rightarrow> jsstring \<Rightarrow> bool" where
  "includes_js [] sub = (sub = [])"
| "includes_js (c # cs) sub = (take (length sub) (c # cs) = sub \<or> includes_js cs sub)"

subsection \<open>Record Extractor: \<open>extractFieldsFromCard\<close>\<close>

text \<open>
  A product card is the DOM element \<open>article[acl-product-card]\<close>. What the extractor
  reads of it is, for each of three selectors, the \<open>textContent\<close> of the first matching
  descendant, or nothing when \<open>querySelector\<close> returns \<open>null\<close>.
\<close>

record card =
  title_product_name :: "jsstring option"
  price_dollars :: "jsstring option"
  price_cents :: "jsstring option"

record product =
  productName :: jsstring
  price :: jsstring

definition getText :: "card \<Rightarrow> (card \<Rightarrow> jsstring option) \<Rightarrow> jsstring" where
  "getText card_el sel = (case sel card_el of Some textContent \<Rightarrow> trim textContent | None \<Rightarrow> [])"

definition extractFieldsFromCard :: "card \<Rightarrow> product" where
  "extractFieldsFromCard card_el =
     (let rawDollarText = getText card_el price_dollars;
          rawCentsText = getText card_el price_cents;
          dollarDigits = orElse (stripNonDigits rawDollarText) (js ''0'');
          centsDigits = orElse (stripNonDigits rawCentsText) (js ''00'');
          finalPrice = trim (js ''$'' @ dollarDigits @ js ''.'' @ centsDigits)
      in \<lparr>productName = getText card_el title_product_name, price = finalPrice\<rparr>)"

subsection \<open>Validation: the invalid entries of a snapshot\<close>

text \<open>\<open>productData.filter((p) => !p.productName || p.price === "$0.00")\<close>.\<close>

definition isInvalidEntry :: "product \<Rightarrow> bool" where
  "isInvalidEntry p = (productName p = [] \<or> price p = js ''$0.00'')"

definition invalidEntries :: "product list \<Rightarrow> product list" where
  "invalidEntries productData = filter isInvalidEntry productData"

subsection \<open>The environment\<close>

type_synonym browser = nat
type_synonym page = nat
type_synonym handle = nat

datatype js_error = JsError string

text \<open>The calls on a page that return nothing.\<close>

datatype page_cmd =
    Goto jsstring
  | SetDefaultNavigationTimeout nat
  | WaitForSelector string
  | Click string
  | TypeText string jsstring
  | KeyboardPress string
  | ClosePage
  | ScrollBy int
  | Screenshot nat
  | ClickAndWaitForNavigation handle

record 'w env =
  e_connect :: "'w \<Rightarrow> (js_error + browser) \<times> 'w"
  e_newPage :: "browser \<Rightarrow> 'w \<Rightarrow> (js_error + page) \<times> 'w"
  e_closeBrowser :: "browser \<Rightarrow> 'w \<Rightarrow> (js_error + unit) \<times> 'w"
  e_page :: "page \<Rightarrow> page_cmd \<Rightarrow> 'w \<Rightarrow> (js_error + unit) \<times> 'w"
  e_scrollHeight :: "page \<Rightarrow> 'w \<Rightarrow> (js_error + int) \<times> 'w"
  e_queryCards :: "page \<Rightarrow> 'w \<Rightarrow> (js_error + card list) \<times> 'w"
  e_queryNext :: "page \<Rightarrow> 'w \<Rightarrow> (js_error + handle option) \<times> 'w"
  e_hasDisabled :: "page \<Rightarrow> handle \<Rightarrow> 'w \<Rightarrow> (js_error + bool) \<times> 'w"
  e_delay :: "nat \<Rightarrow> 'w \<Rightarrow> 'w"
  e_writeFileSync :: "jsstring \<Rightarrow> jsstring \<Rightarrow> 'w \<Rightarrow> (js_error + unit) \<times> 'w"
  e_exec :: "jsstring \<Rightarrow> 'w \<Rightarrow> (js_error + unit) \<times> 'w"

text \<open>
  The trace has one event per call, in call order. An extraction event carries the cards
  the query returned (in document order, as \<open>querySelectorAll\<close> gives them), or
  \<open>None\<close> when the evaluation threw.
\<close>

datatype event =
    EvConnect
  | EvNewPage browser
  | EvCloseBrowser browser
  | EvPage page page_cmd
  | EvScrollHeight page
  | EvCountCards page
  | EvExtractCards page "card list option"
  | EvQueryNext page
  | EvHasDisabled page handle
  | EvDelay nat
  | EvWriteFileSync jsstring jsstring
  | EvExec jsstring
  | EvProcessExit nat

record 'w state =
  world :: 'w
  trace :: "event list"

type_synonym ('w, 'a) outcome = "(js_error + 'a) \<times> 'w state"

definition prim :: "event \<Rightarrow> ('w \<Rightarrow> (js_error + 'a) \<times> 'w) \<Rightarrow> 'w state \<Rightarrow> ('w, 'a) outcome" where
  "prim ev op s = (case op (world s) of (r, w) \<Rightarrow> (r, \<lparr>world = w, trace = trace s @ [ev]\<rparr>))"

text \<open>\<open>delay(time)\<close>: a timer never rejects; the world moves on while the program waits.\<close>

definition delay :: "'w env \<Rightarrow> nat \<Rightarrow> 'w state \<Rightarrow> 'w state" where
  "delay env time s = \<lparr>world = e_delay env time (world s), trace = trace s @ [EvDelay time]\<rparr>"

definition pageDo :: "'w env \<Rightarrow> page \<Rightarrow> page_cmd \<Rightarrow> 'w state \<Rightarrow> ('w, unit) outcome" where
  "pageDo env page cmd = prim (EvPage page cmd) (e_page env page cmd)"

text \<open>\<open>page.evaluate("document.body.scrollHeight")\<close>.\<close>

definition scrollHeight :: "'w env \<Rightarrow> page \<Rightarrow> 'w state \<Rightarrow> ('w, int) outcome" where
  "scrollHeight env page = prim (EvScrollHeight page) (e_scrollHeight env page)"

text \<open>\<open>page.$$eval("article[acl-product-card]", (cards) => cards.length)\<close>.\<close>

definition countCards :: "'w env \<Rightarrow> page \<Rightarrow> 'w state \<Rightarrow> ('w, nat) outcome" where
  "countCards env page s =
     (case prim (EvCountCards page) (e_queryCards env page) s of
        (Inl e, s1) \<Rightarrow> (Inl e, s1)
      | (Inr cards, s1) \<Rightarrow> (Inr (length cards), s1))"

text \<open>
  \<open>page.$$eval("article[acl-product-card]", (cards, f) => cards.map((card) =>
  extractFieldsFromCard(card)), ...)\<close>.
\<close>

definition extractCards :: "'w env \<Rightarrow> page \<Rightarrow> 'w state \<Rightarrow> ('w, product list) outcome" where
  "extractCards env page s =
     (case e_queryCards env page (world s) of
        (Inl e, w) \<Rightarrow> (Inl e, \<lparr>world = w, trace = trace s @ [EvExtractCards page None]\<rparr>)
      | (Inr cards, w) \<Rightarrow>
          (Inr (map extractFieldsFromCard cards),
           \<lparr>world = w, trace = trace s @ [EvExtractCards page (Some cards)]\<rparr>))"

definition queryNext :: "'w env \<Rightarrow> page \<Rightarrow> 'w state \<Rightarrow> ('w, handle option) outcome" where
  "queryNext env page = prim (EvQueryNext page) (e_queryNext env page)"

definition hasDisabled :: "'w env \<Rightarrow> page \<Rightarrow> handle \<Rightarrow> 'w state \<Rightarrow> ('w, bool) outcome" where
  "hasDisabled env page btn = prim (EvHasDisabled page btn) (e_hasDisabled env page btn)"

subsection \<open>Stability Detector: \<open>scrollUntilNoChange\<close> and \<open>scrollAndWaitForStability\<close>\<close>

text \<open>The body of \<open>while (true)\<close> in \<open>scrollUntilNoChange\<close>, from the loop head.\<close>

partial_function (option) scrollLoop ::
  "'w env \<Rightarrow> page \<Rightarrow> int \<Rightarrow> nat \<Rightarrow> int \<Rightarrow> 'w state \<Rightarrow> ('w, unit) outcome option" where
  [code]: "scrollLoop env page scrollStep scrollDelay previousHeight s =
     (case pageDo env page (ScrollBy scrollStep) s of
        (Inl e, s1) \<Rightarrow> Some (Inl e, s1)
      | (Inr _, s1) \<Rightarrow>
          (case scrollHeight env page (delay env scrollDelay s1) of
             (Inl e, s2) \<Rightarrow> Some (Inl e, s2)
           | (Inr currentHeight, s2) \<Rightarrow>
               if currentHeight = previousHeight then Some (Inr (), s2)
               else scrollLoop env page scrollStep scrollDelay currentHeight s2))"

definition scrollUntilNoChange ::
  "'w env \<Rightarrow> page \<Rightarrow> int \<Rightarrow> nat \<Rightarrow> 'w state \<Rightarrow> ('w, unit) outcome option" where
  "scrollUntilNoChange env page scrollStep scrollDelay s =
     (case scrollHeight env page s of
        (Inl e, s1) \<Rightarrow> Some (Inl e, s1)
      | (Inr previousHeight, s1) \<Rightarrow> scrollLoop env page scrollStep scrollDelay previousHeight s1)"

text \<open>
  The loop \<open>while (stableCountRepeats < maxRepeats)\<close> of \<open>scrollAndWaitForStability\<close>,
  from the loop head. The source function returns nothing; the model returns the last
  value of \<open>lastCount\<close>, which the source prints in verbose mode.
\<close>

partial_function (option) stabilityLoop ::
  "'w env \<Rightarrow> page \<Rightarrow> nat \<Rightarrow> nat \<Rightarrow> nat \<Rightarrow> 'w state \<Rightarrow> ('w, nat) outcome option" where
  [code]: "stabilityLoop env page maxRepeats stableCountRepeats lastCount s =
     (if stableCountRepeats < maxRepeats then
        (case scrollUntilNoChange env page 1000 500 s of
           None \<Rightarrow> None
         | Some (Inl e, s1) \<Rightarrow> Some (Inl e, s1)
         | Some (Inr _, s1) \<Rightarrow>
             (case countCards env page (delay env 2000 s1) of
                (Inl e, s2) \<Rightarrow> Some (Inl e, s2)
              | (Inr currentCount, s2) \<Rightarrow>
                  if currentCount = lastCount
                  then stabilityLoop env page maxRepeats (stableCountRepeats + 1) lastCount s2
                  else stabilityLoop env page maxRepeats 0 currentCount s2))
      else Some (Inr lastCount, s))"

definition scrollAndWaitForStability ::
  "'w env \<Rightarrow> page \<Rightarrow> nat \<Rightarrow> 'w state \<Rightarrow> ('w, nat) outcome option" where
  "scrollAndWaitForStability env page maxRepeats s = stabilityLoop env page maxRepeats 0 0 s"

subsection \<open>Pagination Controller: \<open>scrapeAllProducts\<close>\<close>

text \<open>
  The retry loop \<open>while (!validDataFound && attempts < 3)\<close>, from the loop head, on the
  loop's three variables; it returns their final values.
\<close>

function retryLoop ::
  "'w env \<Rightarrow> page \<Rightarrow> bool \<Rightarrow> nat \<Rightarrow> product list \<Rightarrow> 'w state
     \<Rightarrow> ('w, bool \<times> nat \<times> product list) outcome option" where
  "retryLoop env page validDataFound attempts productData s =
     (if \<not> validDataFound \<and> attempts < 3 then
        (case extractCards env page s of
           (Inl e, s1) \<Rightarrow> Some (Inl e, s1)
         | (Inr productData', s1) \<Rightarrow>
             if length (invalidEntries productData') > 0 then
               (case scrollAndWaitForStability env page 5 (delay env 3000 s1) of
                  None \<Rightarrow> None
                | Some (Inl e, s2) \<Rightarrow> Some (Inl e, s2)
                | Some (Inr _, s2) \<Rightarrow>
                    retryLoop env page validDataFound (attempts + 1) productData' s2)
             else retryLoop env page True (attempts + 1) productData' s1)
      else Some (Inr (validDataFound, attempts, productData), s))"
  by pat_completeness auto
termination
  by (relation "measure (\<lambda>(env, page, validDataFound, attempts, productData, s). 3 - attempts)") auto

definition MAX_PAGES :: nat where
  "MAX_PAGES = 20"

text \<open>
  The loop \<open>while (true)\<close> of \<open>scrapeAllProducts\<close>, from the loop head, on \<open>pageCount\<close>
  and \<open>allProducts\<close>.
\<close>

function pageLoop ::
  "'w env \<Rightarrow> page \<Rightarrow> nat \<Rightarrow> product list \<Rightarrow> 'w state \<Rightarrow> ('w, product list) outcome option" where
  "pageLoop env page pageCount allProducts s =
     (case scrollAndWaitForStability env page 5 s of
        None \<Rightarrow> None
      | Some (Inl e, s1) \<Rightarrow> Some (Inl e, s1)
      | Some (Inr _, s1) \<Rightarrow>
      (case pageDo env page (Screenshot (pageCount + 1)) s1 of
        (Inl e, s2) \<Rightarrow> Some (Inl e, s2)
      | (Inr _, s2) \<Rightarrow>
      (case retryLoop env page False 0 [] s2 of
        None \<Rightarrow> None
      | Some (Inl e, s3) \<Rightarrow> Some (Inl e, s3)
      | Some (Inr (validDataFound, attempts, productData), s3) \<Rightarrow>
          if pageCount + 1 \<ge> MAX_PAGES then Some (Inr (allProducts @ productData), s3)
          else
      (case queryNext env page s3 of
        (Inl e, s4) \<Rightarrow> Some (Inl e, s4)
      | (Inr None, s4) \<Rightarrow> Some (Inr (allProducts @ productData), s4)
      | (Inr (Some nextButton), s4) \<Rightarrow>
      (case hasDisabled env page nextButton s4 of
        (Inl e, s5) \<Rightarrow> Some (Inl e, s5)
      | (Inr isDisabled, s5) \<Rightarrow>
          if isDisabled then Some (Inr (allProducts @ productData), s5)
          else
      (case pageDo env page (ClickAndWaitForNavigation nextButton) s5 of
        (Inl e, s6) \<Rightarrow> Some (Inl e, s6)
      | (Inr _, s6) \<Rightarrow>
          pageLoop env page (pageCount + 1) (allProducts @ productData)
            (delay env 3000 s6)))))))"
  by pat_completeness auto
termination
  by (relation "measure (\<lambda>(env, page, pageCount, allProducts, s). MAX_PAGES - pageCount)") auto

definition scrapeAllProducts ::
  "'w env \<Rightarrow> page \<Rightarrow> jsstring \<Rightarrow> 'w state \<Rightarrow> ('w, product list) outcome option" where
  "scrapeAllProducts env page initialUrl s =
     (case pageDo env page (Goto initialUrl) s of
        (Inl e, s1) \<Rightarrow> Some (Inl e, s1)
      | (Inr _, s1) \<Rightarrow> pageLoop env page 0 [] (delay env 5000 s1))"

subsection \<open>Run Coordinator: \<open>connectToBrowser\<close>, \<open>changeStore\<close>, \<open>writeToCSV\<close> and the main function\<close>

text \<open>Sequencing of awaited calls: a thrown error or a loop that never ends stops the sequence.\<close>

definition andThen ::
  "('s \<Rightarrow> ((js_error + 'a) \<times> 's) option) \<Rightarrow> ('a \<Rightarrow> 's \<Rightarrow> ((js_error + 'b) \<times> 's) option)
     \<Rightarrow> 's \<Rightarrow> ((js_error + 'b) \<times> 's) option" where
  "andThen m f s =
     (case m s of
        None \<Rightarrow> None
      | Some (Inl e, s1) \<Rightarrow> Some (Inl e, s1)
      | Some (Inr x, s1) \<Rightarrow> f x s1)"

definition call :: "('s \<Rightarrow> (js_error + 'a) \<times> 's) \<Rightarrow> 's \<Rightarrow> ((js_error + 'a) \<times> 's) option" where
  "call p s = Some (p s)"

definition pause :: "'w env \<Rightarrow> nat \<Rightarrow> 'w state \<Rightarrow> ('w, unit) outcome option" where
  "pause env time s = Some (Inr (), delay env time s)"

definition connectToBrowser :: "'w env \<Rightarrow> 'w state \<Rightarrow> ('w, browser) outcome" where
  "connectToBrowser env = prim EvConnect (e_connect env)"

definition newPage :: "'w env \<Rightarrow> browser \<Rightarrow> 'w state \<Rightarrow> ('w, page) outcome" where
  "newPage env browser = prim (EvNewPage browser) (e_newPage env browser)"

definition closeBrowser :: "'w env \<Rightarrow> browser \<Rightarrow> 'w state \<Rightarrow> ('w, unit) outcome" where
  "closeBrowser env browser = prim (EvCloseBrowser browser) (e_closeBrowser env browser)"

definition processExit :: "nat \<Rightarrow> 'w state \<Rightarrow> 'w state" where
  "processExit code s = \<lparr>world = world s, trace = trace s @ [EvProcessExit code]\<rparr>"

definition changeStore :: "'w env \<Rightarrow> page \<Rightarrow> jsstring \<Rightarrow> 'w state \<Rightarrow> ('w, unit) outcome option" where
  \<open>changeStore env page location =
     andThen (call (pageDo env page (WaitForSelector ''acl-store-hours-menu[role="button"]''))) (\<lambda>_.
     andThen (call (pageDo env page (Click ''acl-store-hours-menu[role="button"]''))) (\<lambda>_.
     andThen (call (pageDo env page (WaitForSelector
       ''input.hdca-input[placeholder="Postal Code, City, or Store Number"]''))) (\<lambda>_.
     andThen (call (pageDo env page (TypeText
       ''input.hdca-input[placeholder="Postal Code, City, or Store Number"]'' location))) (\<lambda>_.
     andThen (call (pageDo env page (KeyboardPress ''Enter''))) (\<lambda>_.
     andThen (pause env 5000) (\<lambda>_.
     andThen (call (pageDo env page (WaitForSelector ''button.acl-button--theme--primary''))) (\<lambda>_.
     andThen (call (pageDo env page (Click ''button.acl-button--theme--primary''))) (\<lambda>_.
     pause env 5000))))))))\<close>

definition csvRow :: "product \<Rightarrow> jsstring" where
  "csvRow item = replaceCommas (productName item) @ js '','' @ replaceCommas (price item) @ [0x0A]"

definition csvContent :: "product list \<Rightarrow> jsstring" where
  "csvContent data = foldl (\<lambda>content item. content @ csvRow item) (js ''product_name,price'' @ [0x0A]) data"

text \<open>The sort script is chosen only for the PT and SPF files; the PLY branch is disabled.\<close>

definition pythonScript :: "jsstring \<Rightarrow> jsstring option" where
  "pythonScript outPath =
     (if includes_js outPath (js ''PT_'') \<or> includes_js outPath (js ''SPF_'')
      then Some (js ''sortProducts.py'')
      else None)"

definition writeToCSV :: "'w env \<Rightarrow> product list \<Rightarrow> jsstring \<Rightarrow> 'w state \<Rightarrow> ('w, unit) outcome option" where
  "writeToCSV env data outPath =
     andThen (call (prim (EvWriteFileSync outPath (csvContent data))
                      (e_writeFileSync env outPath (csvContent data)))) (\<lambda>_.
     case pythonScript outPath of
       Some script \<Rightarrow>
         (let command = js ''python '' @ script @ [0x20, 0x22] @ outPath @ [0x22]
          in call (prim (EvExec command) (e_exec env command)))
     | None \<Rightarrow> (\<lambda>s. Some (Inr (), s)))"

text \<open>The statements of the \<open>try\<close> block after \<open>browser\<close> has been assigned.\<close>

definition withBrowser ::
  "'w env \<Rightarrow> browser \<Rightarrow> jsstring \<Rightarrow> jsstring \<Rightarrow> 'w state \<Rightarrow> ('w, product list) outcome option" where
  "withBrowser env browser url csvName =
     andThen (call (newPage env browser)) (\<lambda>setupPage.
     andThen (call (pageDo env setupPage (SetDefaultNavigationTimeout (6 * 60 * 1000)))) (\<lambda>_.
     andThen (call (pageDo env setupPage (Goto (js ''https://www.homedepot.ca/'')))) (\<lambda>_.
     andThen (pause env 5000) (\<lambda>_.
     andThen (changeStore env setupPage (js ''Collingwood'')) (\<lambda>_.
     andThen (call (pageDo env setupPage ClosePage)) (\<lambda>_.
     andThen (call (newPage env browser)) (\<lambda>scraperPage.
     andThen (call (pageDo env scraperPage (SetDefaultNavigationTimeout (6 * 60 * 1000)))) (\<lambda>_.
     andThen (scrapeAllProducts env scraperPage url) (\<lambda>products.
     andThen (call (pageDo env scraperPage ClosePage)) (\<lambda>_.
     andThen (writeToCSV env ([] @ products) csvName) (\<lambda>_.
     (\<lambda>s. Some (Inr ([] @ products), s)))))))))))))"

text \<open>
  The \<open>try\<close> block: it returns the value of the variable \<open>browser\<close> (unassigned while
  \<open>connectToBrowser\<close> has not returned) beside its outcome.
\<close>

definition tryBlock ::
  "'w env \<Rightarrow> jsstring \<Rightarrow> jsstring \<Rightarrow> 'w state
     \<Rightarrow> (browser option \<times> ('w, product list) outcome) option" where
  "tryBlock env url csvName s =
     (case connectToBrowser env s of
        (Inl e, s1) \<Rightarrow> Some (None, Inl e, s1)
      | (Inr browser, s1) \<Rightarrow>
          (case withBrowser env browser url csvName s1 of
             None \<Rightarrow> None
           | Some (r, s2) \<Rightarrow> Some (Some browser, r, s2)))"

text \<open>
  The \<open>finally\<close> block: \<open>if (browser) await browser.close()\<close>, then \<open>process.exit(0)\<close>.
  An error thrown by \<open>browser.close()\<close> leaves the function; otherwise the process ends
  with the completion the function had reached.
\<close>

definition finallyBlock ::
  "'w env \<Rightarrow> browser option \<Rightarrow> product list \<Rightarrow> 'w state \<Rightarrow> ('w, product list) outcome" where
  "finallyBlock env browser completion s =
     (case browser of
        Some b \<Rightarrow>
          (case closeBrowser env b s of
             (Inl e, s1) \<Rightarrow> (Inl e, s1)
           | (Inr _, s1) \<Rightarrow> (Inr completion, processExit 0 s1))
      | None \<Rightarrow> (Inr completion, processExit 0 s))"

text \<open>The main function: \<open>try\<close>, \<open>catch (error) { return []; }\<close>, \<open>finally\<close>.\<close>

definition main :: "'w env \<Rightarrow> jsstring \<Rightarrow> jsstring \<Rightarrow> 'w state \<Rightarrow> ('w, product list) outcome option" where
  "main env url csvName s =
     (case tryBlock env url csvName s of
        None \<Rightarrow> None
      | Some (browser, Inr allProducts, s1) \<Rightarrow> Some (finallyBlock env browser allProducts s1)
      | Some (browser, Inl error, s1) \<Rightarrow> Some (finallyBlock env browser [] s1))"

subsection \<open>Observations on cards and traces\<close>

text \<open>The text of an optional element: its \<open>textContent\<close>, or the empty string.\<close>

definition textOf :: "jsstring option \<Rightarrow> jsstring" where
  "textOf el = (case el of Some textContent \<Rightarrow> textContent | None \<Rightarrow> [])"

text \<open>The events a call emitted: what the trace has gained between two states.\<close>

definition emitted :: "'w state \<Rightarrow> 'w state \<Rightarrow> event list" where
  "emitted s s' = drop (length (trace s)) (trace s')"

text \<open>\<open>extends K s s'\<close>: the trace of \<open>s'\<close> is the trace of \<open>s\<close> followed by events in \<open>K\<close>.\<close>

definition extends :: "(event \<Rightarrow> bool) \<Rightarrow> 'w state \<Rightarrow> 'w state \<Rightarrow> bool" where
  "extends K s s' = (\<exists>evs. trace s' = trace s @ evs \<and> list_all K evs)"

text \<open>The events of the Stability Detector: scrolling, measuring, waiting, counting.\<close>

fun stabilityEvent :: "event \<Rightarrow> bool" where
  "stabilityEvent (EvPage p (ScrollBy n)) = True"
| "stabilityEvent (EvScrollHeight p) = True"
| "stabilityEvent (EvCountCards p) = True"
| "stabilityEvent (EvDelay t) = True"
| "stabilityEvent _ = False"

text \<open>
  One iteration of the page loop in two halves, for stating what an iteration does:
  \<open>processPage\<close> is the body up to \<open>allProducts.push(...productData)\<close>, given the
  incremented \<open>pageCount\<close>, and returns \<open>productData\<close>; \<open>deciding\<close> is the body after
  it and returns whether the loop goes on to the next page. Lemma \<open>pageLoop_unfold\<close>
  shows that the loop is the two in sequence.
\<close>

definition processPage ::
  "'w env \<Rightarrow> page \<Rightarrow> nat \<Rightarrow> 'w state \<Rightarrow> ('w, product list) outcome option" where
  "processPage env page pageCount s =
     (case scrollAndWaitForStability env page 5 s of
        None \<Rightarrow> None
      | Some (Inl e, s1) \<Rightarrow> Some (Inl e, s1)
      | Some (Inr _, s1) \<Rightarrow>
      (case pageDo env page (Screenshot pageCount) s1 of
        (Inl e, s2) \<Rightarrow> Some (Inl e, s2)
      | (Inr _, s2) \<Rightarrow>
      (case retryLoop env page False 0 [] s2 of
        None \<Rightarrow> None
      | Some (Inl e, s3) \<Rightarrow> Some (Inl e, s3)
      | Some (Inr (validDataFound, attempts, productData), s3) \<Rightarrow> Some (Inr productData, s3))))"

definition deciding :: "'w env \<Rightarrow> page \<Rightarrow> nat \<Rightarrow> 'w state \<Rightarrow> ('w, bool) outcome" where
  "deciding env page pageCount s3 =
     (if pageCount \<ge> MAX_PAGES then (Inr False, s3)
      else
      (case queryNext env page s3 of
        (Inl e, s4) \<Rightarrow> (Inl e, s4)
      | (Inr None, s4) \<Rightarrow> (Inr False, s4)
      | (Inr (Some nextButton), s4) \<Rightarrow>
      (case hasDisabled env page nextButton s4 of
        (Inl e, s5) \<Rightarrow> (Inl e, s5)
      | (Inr isDisabled, s5) \<Rightarrow>
          if isDisabled then (Inr False, s5)
          else
      (case pageDo env page (ClickAndWaitForNavigation nextButton) s5 of
        (Inl e, s6) \<Rightarrow> (Inl e, s6)
      | (Inr _, s6) \<Rightarrow> (Inr True, delay env 3000 s6)))))"


definition readCount :: "'w env \<Rightarrow> page \<Rightarrow> 'w state \<Rightarrow> ('w, nat) outcome option" where
  "readCount env page s =
     (case scrollUntilNoChange env page 1000 500 s of
        None \<Rightarrow> None
      | Some (Inl e, s1) \<Rightarrow> Some (Inl e, s1)
      | Some (Inr _, s1) \<Rightarrow> Some (countCards env page (delay env 2000 s1)))"

text \<open>
  \<open>readings env page s counts s'\<close>: from the state \<open>s\<close>, successive passes of the
  stabilisation loop count the numbers of cards \<open>counts\<close>, in this order, none of them
  throwing, and leave the state \<open>s'\<close>.
\<close>

fun readings :: "'w env \<Rightarrow> page \<Rightarrow> 'w state \<Rightarrow> nat list \<Rightarrow> 'w state \<Rightarrow> bool" where
  "readings env page s [] s' = (s' = s)"
| "readings env page s (c # cs) s' =
     (case readCount env page s of
        Some (Inr currentCount, s1) \<Rightarrow> currentCount = c \<and> readings env page s1 cs s'
      | _ \<Rightarrow> False)"

text \<open>Kinds of events.\<close>

fun isExtract :: "event \<Rightarrow> bool" where
  "isExtract (EvExtractCards p r) = True"
| "isExtract _ = False"

fun isScreenshot :: "event \<Rightarrow> bool" where
  "isScreenshot (EvPage p (Screenshot n)) = True"
| "isScreenshot _ = False"

fun isQueryNext :: "event \<Rightarrow> bool" where
  "isQueryNext (EvQueryNext p) = True"
| "isQueryNext _ = False"

fun isClickNext :: "event \<Rightarrow> bool" where
  "isClickNext (EvPage p (ClickAndWaitForNavigation h)) = True"
| "isClickNext _ = False"

fun isCloseBrowser :: "event \<Rightarrow> bool" where
  "isCloseBrowser (EvCloseBrowser b) = True"
| "isCloseBrowser _ = False"

fun isProcessExit :: "event \<Rightarrow> bool" where
  "isProcessExit (EvProcessExit c) = True"
| "isProcessExit _ = False"

text \<open>The events that end the run: closing the browser and leaving the process.\<close>

fun lifecycleEvent :: "event \<Rightarrow> bool" where
  "lifecycleEvent (EvCloseBrowser b) = True"
| "lifecycleEvent (EvProcessExit c) = True"
| "lifecycleEvent _ = False"

text \<open>\<open>quiet m\<close>: the program \<open>m\<close> neither closes the browser nor leaves the process.\<close>

definition quiet :: "('w state \<Rightarrow> ('w, 'a) outcome option) \<Rightarrow> bool" where
  "quiet m =
     (\<forall>s r s'. m s = Some (r, s') \<longrightarrow>
        (\<exists>evs. trace s' = trace s @ evs \<and> filter lifecycleEvent evs = []))"

definition retryEvent :: "event \<Rightarrow> bool" where
  "retryEvent ev = (stabilityEvent ev \<or> isExtract ev)"

text \<open>The events of the decision about the next page.\<close>

fun decidingEvent :: "event \<Rightarrow> bool" where
  "decidingEvent (EvQueryNext p) = True"
| "decidingEvent (EvHasDisabled p h) = True"
| "decidingEvent (EvPage p (ClickAndWaitForNavigation h)) = True"
| "decidingEvent (EvDelay t) = True"
| "decidingEvent _ = False"

text \<open>The card lists of the successful extractions in a trace, in trace order.\<close>

fun extraction :: "event \<Rightarrow> card list option" where
  "extraction (EvExtractCards p (Some cards)) = Some cards"
| "extraction _ = None"

definition extractions :: "event list \<Rightarrow> card list list" where
  "extractions evs = List.map_filter extraction evs"

definition lastExtraction :: "event list \<Rightarrow> card list" where
  "lastExtraction evs = (case extractions evs of [] \<Rightarrow> [] | x # xs \<Rightarrow> last (x # xs))"

text \<open>
  The pages of a trace: the screenshot is taken once per page, before the page's
  extraction, so each screenshot event stands for a page, and the page's final cards are
  those of the last successful extraction before the next screenshot.
\<close>

fun pageCards :: "event list \<Rightarrow> card list list" where
  "pageCards [] = []"
| "pageCards (ev # evs) =
     (if isScreenshot ev
      then lastExtraction (takeWhile (\<lambda>e. \<not> isScreenshot e) evs) # pageCards evs
      else pageCards evs)"

subsection \<open>Simulated environments\<close>

text \<open>
  A static page: every call succeeds, the document height and the cards never change,
  there is no "Next Page" control. The world is a counter that this environment leaves
  alone; the variations below use it.
\<close>

definition staticEnv :: "card list \<Rightarrow> nat env" where
  "staticEnv cards =
     \<lparr>e_connect = (\<lambda>w. (Inr 0, w)),
      e_newPage = (\<lambda>b w. (Inr 0, w)),
      e_closeBrowser = (\<lambda>b w. (Inr (), w)),
      e_page = (\<lambda>p c w. (Inr (), w)),
      e_scrollHeight = (\<lambda>p w. (Inr 1000, w)),
      e_queryCards = (\<lambda>p w. (Inr cards, w)),
      e_queryNext = (\<lambda>p w. (Inr None, w)),
      e_hasDisabled = (\<lambda>p h w. (Inr False, w)),
      e_delay = (\<lambda>t w. w),
      e_writeFileSync = (\<lambda>f c w. (Inr (), w)),
      e_exec = (\<lambda>c w. (Inr (), w))\<rparr>"

definition initial :: "nat state" where
  "initial = \<lparr>world = 0, trace = []\<rparr>"

definition mkCard :: "string \<Rightarrow> string \<Rightarrow> string \<Rightarrow> card" where
  "mkCard n d c =
     \<lparr>title_product_name = Some (js n), price_dollars = Some (js d), price_cents = Some (js c)\<rparr>"

text \<open>
  The trace of one run of the Stability Detector on a page that does not change: each
  reading measures the height, scrolls once, measures the same height, and counts.
\<close>

definition stableTrace :: "page \<Rightarrow> nat \<Rightarrow> event list" where
  "stableTrace page n =
     concat (replicate n
       [EvScrollHeight page, EvPage page (ScrollBy 1000), EvDelay 500, EvScrollHeight page,
        EvDelay 2000, EvCountCards page])"

text \<open>An endlessly paginating site: the same page, with an enabled "Next Page" control.\<close>

definition endlessEnv :: "card list \<Rightarrow> nat env" where
  "endlessEnv cards = (staticEnv cards)\<lparr>e_queryNext := (\<lambda>p w. (Inr (Some 7), w))\<rparr>"

text \<open>The trace of page \<open>n\<close> of the endlessly paginating site.\<close>

definition endlessPageTrace :: "card list \<Rightarrow> nat \<Rightarrow> event list" where
  "endlessPageTrace cards n =
     stableTrace 0 (if cards = [] then 5 else 6)
     @ [EvPage 0 (Screenshot n), EvExtractCards 0 (Some cards)]
     @ (if n < 20
        then [EvQueryNext 0, EvHasDisabled 0 7, EvPage 0 (ClickAndWaitForNavigation 7), EvDelay 3000]
        else [])"

text \<open>
  A page whose cards are \<open>bad\<close> at first and \<open>good\<close> after the first wait of three
  seconds; the world counts the waits of three seconds.
\<close>

definition healingEnv :: "card list \<Rightarrow> card list \<Rightarrow> nat env" where
  "healingEnv bad good =
     (staticEnv bad)
       \<lparr>e_queryCards := (\<lambda>p w. (Inr (if w = 0 then bad else good), w)),
        e_delay := (\<lambda>t w. if t = 3000 then Suc w else w)\<rparr>"

text \<open>
  A catalogue of two pages; the world counts the navigations. The first page has an
  enabled "Next Page" control, the second has none.
\<close>

definition twoPageEnv :: "card list \<Rightarrow> card list \<Rightarrow> nat env" where
  "twoPageEnv first second =
     (staticEnv first)
       \<lparr>e_page := (\<lambda>p c w. (Inr (), case c of ClickAndWaitForNavigation h \<Rightarrow> Suc w | _ \<Rightarrow> w)),
        e_queryCards := (\<lambda>p w. (Inr (if w = 0 then first else second), w)),
        e_queryNext := (\<lambda>p w. (Inr (if w = 0 then Some 7 else None), w))\<rparr>"


text \<open>
  A page whose successive card queries find the numbers of cards of a given list, and
  throw once the list is used up; the world counts the queries.
\<close>

definition countsEnv :: "nat list \<Rightarrow> nat env" where
  "countsEnv counts =
     (staticEnv [])
       \<lparr>e_queryCards := (\<lambda>p w.
          (if w < length counts then Inr (replicate (counts ! w) (mkCard ''Stud'' ''2'' ''98''))
           else Inl (JsError ''no more readings''), Suc w))\<rparr>"

text \<open>A browser service that refuses the connection.\<close>

definition offlineEnv :: "nat env" where
  "offlineEnv = (staticEnv [])\<lparr>e_connect := (\<lambda>w. (Inl (JsError ''connection refused''), w))\<rparr>"

text \<open>A page on which the card query throws.\<close>

definition brokenEnv :: "nat env" where
  "brokenEnv = (staticEnv [])\<lparr>e_queryCards := (\<lambda>p w. (Inl (JsError ''detached frame''), w))\<rparr>"

text \<open>
  A page whose frame is detached during the third refresh of the retry loop: the world
  counts the waits of three seconds, and measuring the height throws once three of them
  have passed.
\<close>

definition detachingEnv :: "card list \<Rightarrow> nat env" where
  "detachingEnv cards =
     (staticEnv cards)
       \<lparr>e_scrollHeight := (\<lambda>p w. (if w < 3 then Inr 1000 else Inl (JsError ''detached frame''), w)),
        e_delay := (\<lambda>t w. if t = 3000 then w + 1 else w)\<rparr>"


text \<open>
  The trace of the set-up in the simulated environments, from the first \<open>newPage\<close> to
  the navigation timeout of the scraper page; the browser and both pages have the id 0.
\<close>

definition setupTrace :: "event list" where
  \<open>setupTrace =
     [EvNewPage 0,
      EvPage 0 (SetDefaultNavigationTimeout 360000),
      EvPage 0 (Goto (js ''https://www.homedepot.ca/'')),
      EvDelay 5000,
      EvPage 0 (WaitForSelector ''acl-store-hours-menu[role="button"]''),
      EvPage 0 (Click ''acl-store-hours-menu[role="button"]''),
      EvPage 0 (WaitForSelector
        ''input.hdca-input[placeholder="Postal Code, City, or Store Number"]''),
      EvPage 0 (TypeText
        ''input.hdca-input[placeholder="Postal Code, City, or Store Number"]'' (js ''Collingwood'')),
      EvPage 0 (KeyboardPress ''Enter''),
      EvDelay 5000,
      EvPage 0 (WaitForSelector ''button.acl-button--theme--primary''),
      EvPage 0 (Click ''button.acl-button--theme--primary''),
      EvDelay 5000,
      EvPage 0 ClosePage,
      EvNewPage 0,
      EvPage 0 (SetDefaultNavigationTimeout 360000)]\<close>

section \<open>Properties\<close>

declare retryLoop.simps [simp del]
declare pageLoop.simps [simp del]

subsection \<open>Strings and the extractor\<close>

lemma isWhiteSpace_not_digit: "isWhiteSpace c \<Longrightarrow> \<not> isDigit c"
  by (auto simp: isWhiteSpace_def isDigit_def)

lemma filter_isDigit_dropWhile: "filter isDigit (dropWhile isWhiteSpace t) = filter isDigit t"
  by (induction t) (auto simp: isWhiteSpace_not_digit)

lemma stripNonDigits_trim: "stripNonDigits (trim t) = stripNonDigits t"
proof -
  have "filter isDigit (rev (dropWhile isWhiteSpace (rev (dropWhile isWhiteSpace t))))
        = rev (filter isDigit (dropWhile isWhiteSpace (rev (dropWhile isWhiteSpace t))))"
    by (simp add: rev_filter)
  also have "\<dots> = rev (filter isDigit (rev (dropWhile isWhiteSpace t)))"
    by (simp add: filter_isDigit_dropWhile)
  also have "\<dots> = filter isDigit (dropWhile isWhiteSpace t)"
    by (simp add: rev_filter)
  finally show ?thesis
    by (simp add: stripNonDigits_def trim_def filter_isDigit_dropWhile)
qed

lemma dropWhile_id: "t \<noteq> [] \<Longrightarrow> \<not> P (hd t) \<Longrightarrow> dropWhile P t = t"
  by (cases t) auto

lemma trim_id:
  "t \<noteq> [] \<Longrightarrow> \<not> isWhiteSpace (hd t) \<Longrightarrow> \<not> isWhiteSpace (last t) \<Longrightarrow> trim t = t"
  by (simp add: trim_def dropWhile_id hd_rev)

lemma digits_last: "ds \<noteq> [] \<Longrightarrow> list_all isDigit ds \<Longrightarrow> \<not> isWhiteSpace (last ds)"
  by (metis isWhiteSpace_not_digit last_in_set list_all_iff)

lemma orElse_digits:
  "list_all isDigit d \<Longrightarrow> d \<noteq> [] \<Longrightarrow>
   list_all isDigit (orElse (stripNonDigits t) d) \<and> orElse (stripNonDigits t) d \<noteq> []"
  by (auto simp: orElse_def stripNonDigits_def list_all_iff)

lemma price_compose:
  assumes "list_all isDigit cs" "cs \<noteq> []"
  shows "trim (js ''$'' @ ds @ js ''.'' @ cs) = js ''$'' @ ds @ js ''.'' @ cs"
proof (rule trim_id)
  show "js ''$'' @ ds @ js ''.'' @ cs \<noteq> []"
    by (simp add: js_def)
  show "\<not> isWhiteSpace (hd (js ''$'' @ ds @ js ''.'' @ cs))"
    by (simp add: js_def isWhiteSpace_def)
  show "\<not> isWhiteSpace (last (js ''$'' @ ds @ js ''.'' @ cs))"
    using assms by (simp add: digits_last)
qed

lemma stripNonDigits_getText: "stripNonDigits (getText c sel) = stripNonDigits (textOf (sel c))"
  by (simp add: getText_def textOf_def stripNonDigits_trim split: option.splits)

lemma extract_price:
  "price (extractFieldsFromCard c) =
     js ''$'' @ orElse (stripNonDigits (textOf (price_dollars c))) (js ''0'') @ js ''.''
       @ orElse (stripNonDigits (textOf (price_cents c))) (js ''00'')"
proof -
  have d: "list_all isDigit (js ''00'')" "js ''00'' \<noteq> []"
    by (simp_all add: js_def isDigit_def)
  show ?thesis
    unfolding extractFieldsFromCard_def Let_def
    using orElse_digits[OF d]
    by (simp add: price_compose stripNonDigits_getText)
qed

text \<open>
  Claim C6. For every card, the price is \<open>$\<close>, then the digits of the dollars text (or
  \<open>0\<close> when it has none), then a dot, then the digits of the cents text (or \<open>00\<close> when it
  has none), a missing element counting as the empty text. Dollars text \<open>$1,234\<close> with
  cents text \<open>56\<close> gives \<open>$1234.56\<close>; a card without a cents element gives
  \<open>$<dollars>.00\<close>.
\<close>

theorem extractFieldsFromCard_price:
  "price (extractFieldsFromCard c) =
     js ''$''
     @ (let dollarDigits = filter isDigit (textOf (price_dollars c))
        in if dollarDigits = [] then js ''0'' else dollarDigits)
     @ js ''.''
     @ (let centsDigits = filter isDigit (textOf (price_cents c))
        in if centsDigits = [] then js ''00'' else centsDigits)
   \<and> price (extractFieldsFromCard
        \<lparr>title_product_name = n, price_dollars = Some (js ''$1,234''),
         price_cents = Some (js ''56'')\<rparr>)
       = js ''$1234.56''
   \<and> price (extractFieldsFromCard
        \<lparr>title_product_name = n, price_dollars = dollars, price_cents = None\<rparr>)
       = js ''$''
         @ (let dollarDigits = filter isDigit (textOf dollars)
            in if dollarDigits = [] then js ''0'' else dollarDigits)
         @ js ''.00''"
  by (simp add: extract_price stripNonDigits_def orElse_def textOf_def js_def isDigit_def)

subsection \<open>What the Stability Detector adds to the trace\<close>

lemma extends_refl: "extends K s s"
  by (simp add: extends_def)

lemma extends_trans: "extends K s s1 \<Longrightarrow> extends K s1 s2 \<Longrightarrow> extends K s s2"
  by (auto simp: extends_def)

lemma extends_prim: "prim ev op s = (r, s') \<Longrightarrow> K ev \<Longrightarrow> extends K s s'"
  by (auto simp: extends_def prim_def split: prod.splits)

lemma extends_delay: "K (EvDelay t) \<Longrightarrow> extends K s (delay env t s)"
  by (simp add: extends_def delay_def)

lemma extends_pageDo: "pageDo env page cmd s = (r, s') \<Longrightarrow> K (EvPage page cmd) \<Longrightarrow> extends K s s'"
  unfolding pageDo_def by (rule extends_prim)

lemma extends_scrollHeight: "scrollHeight env page s = (r, s') \<Longrightarrow> K (EvScrollHeight page) \<Longrightarrow> extends K s s'"
  unfolding scrollHeight_def by (rule extends_prim)

lemma extends_countCards: "countCards env page s = (r, s') \<Longrightarrow> K (EvCountCards page) \<Longrightarrow> extends K s s'"
  unfolding countCards_def by (auto split: prod.splits sum.splits dest: extends_prim)

lemma extends_scrollLoop:
  assumes "scrollLoop env page st dl prev s = Some y"
  shows "extends stabilityEvent s (snd y)"
proof (rule scrollLoop.raw_induct
    [where P = "\<lambda>env page st dl prev s y. extends stabilityEvent s (snd y)", OF _ assms], goal_cases)
  case (1 f env page st dl prev s y)
  obtain r1 s1 where a: "pageDo env page (ScrollBy st) s = (r1, s1)" by force
  obtain r2 s2 where b: "scrollHeight env page (delay env dl s1) = (r2, s2)" by force
  have e1: "extends stabilityEvent s s1"
    using a by (rule extends_pageDo) simp
  have e2: "extends stabilityEvent s1 s2"
    using extends_delay[of stabilityEvent dl s1 env] extends_scrollHeight[OF b, of stabilityEvent]
    by (auto intro: extends_trans)
  have e3: "extends stabilityEvent s s2"
    using e1 e2 by (rule extends_trans)
  show ?case
  proof (cases r1)
    case (Inl e)
    with 1(2) a e1 show ?thesis by auto
  next
    case r1: (Inr u)
    show ?thesis
    proof (cases r2)
      case (Inl e)
      with 1(2) a b r1 e3 show ?thesis by auto
    next
      case r2: (Inr h)
      show ?thesis
      proof (cases "h = prev")
        case True
        with 1(2) a b r1 r2 e3 show ?thesis by auto
      next
        case False
        with 1(2) a b r1 r2 have "f env page st dl h s2 = Some y" by auto
        from 1(1)[OF this] e3 show ?thesis by (rule extends_trans[rotated])
      qed
    qed
  qed
qed

lemma extends_scrollUntilNoChange:
  "scrollUntilNoChange env page st dl s = Some y \<Longrightarrow> extends stabilityEvent s (snd y)"
  unfolding scrollUntilNoChange_def
  by (auto split: prod.splits sum.splits dest!: extends_scrollLoop extends_scrollHeight[where K=stabilityEvent]
      intro: extends_trans)

lemma extends_stabilityLoop:
  assumes "stabilityLoop env page m st la s = Some y"
  shows "extends stabilityEvent s (snd y)"
proof (rule stabilityLoop.raw_induct
    [where P = "\<lambda>env page m st la s y. extends stabilityEvent s (snd y)", OF _ assms], goal_cases)
  case (1 f env page m st la s y)
  show ?case
  proof (cases "st < m")
    case False
    with 1(2) show ?thesis by (auto simp: extends_refl)
  next
    case True
    with 1(2) obtain r1 s1 where a: "scrollUntilNoChange env page 1000 500 s = Some (r1, s1)"
      by (auto split: option.splits)
    obtain r2 s2 where b: "countCards env page (delay env 2000 s1) = (r2, s2)" by force
    have e1: "extends stabilityEvent s s1"
      using extends_scrollUntilNoChange[OF a] by simp
    have e2: "extends stabilityEvent s1 s2"
      using extends_delay[of stabilityEvent 2000 s1 env] extends_countCards[OF b, of stabilityEvent]
      by (auto intro: extends_trans)
    have e3: "extends stabilityEvent s s2"
      using e1 e2 by (rule extends_trans)
    show ?thesis
    proof (cases r1)
      case (Inl e)
      with 1(2) True a e1 show ?thesis by auto
    next
      case r1: (Inr u)
      show ?thesis
      proof (cases r2)
        case (Inl e)
        with 1(2) True a b r1 e3 show ?thesis by auto
      next
        case r2: (Inr c)
        from 1(2) True a b r1 r2
        have "f env page m (if c = la then st + 1 else 0) (if c = la then la else c) s2 = Some y"
          by (auto split: if_splits)
        from 1(1)[OF this] e3 show ?thesis by (rule extends_trans[rotated])
      qed
    qed
  qed
qed

subsection \<open>Validation and retry\<close>

lemma retryLoop_done:
  "validDataFound \<or> 3 \<le> attempts \<Longrightarrow>
   retryLoop env page validDataFound attempts productData s =
     Some (Inr (validDataFound, attempts, productData), s)"
  by (subst retryLoop.simps) auto

lemma retryLoop_step:
  "extractCards env page s = (Inr productData, s1) \<Longrightarrow> attempts < 3 \<Longrightarrow>
   retryLoop env page False attempts previous s =
     (if 0 < length (invalidEntries productData)
      then (case scrollAndWaitForStability env page 5 (delay env 3000 s1) of
              None \<Rightarrow> None
            | Some (Inl e, s2) \<Rightarrow> Some (Inl e, s2)
            | Some (Inr _, s2) \<Rightarrow> retryLoop env page False (attempts + 1) productData s2)
      else Some (Inr (True, attempts + 1, productData), s1))"
  by (subst retryLoop.simps) (simp add: retryLoop_done)

lemma invalid_iff:
  "(0 < length (invalidEntries productData)) =
     (\<exists>p \<in> set productData. productName p = [] \<or> price p = js ''$0.00'')"
  by (auto simp: invalidEntries_def isInvalidEntry_def filter_empty_conv)

text \<open>
  Claim C5. A snapshot has invalid entries exactly when one of its records has an empty
  name or the price \<open>$0.00\<close>. A record with the price \<open>$0.00\<close> is invalid whatever its
  name, and whether the digits were defaulted (no price elements, texts without digits)
  or read from the page. In an attempt of the retry loop whose extraction returned the
  snapshot, an invalid snapshot leads to the refresh and the loop head, a valid one is
  accepted on the spot.
\<close>

theorem validation_classifies:
  "(0 < length (invalidEntries productData)) =
     (\<exists>p \<in> set productData. productName p = [] \<or> price p = js ''$0.00'')
   \<and> isInvalidEntry \<lparr>productName = n, price = js ''$0.00''\<rparr>
   \<and> isInvalidEntry (extractFieldsFromCard
         \<lparr>title_product_name = Some (js ''Stud''), price_dollars = None, price_cents = None\<rparr>)
   \<and> isInvalidEntry (extractFieldsFromCard (mkCard ''Stud'' ''$0'' ''00''))
   \<and> isInvalidEntry (extractFieldsFromCard (mkCard ''Stud'' ''N/A'' ''--''))
   \<and> (extractCards env page s = (Inr productData, s1) \<and> attempts < 3 \<longrightarrow>
        retryLoop env page False attempts previous s =
          (if \<exists>p \<in> set productData. productName p = [] \<or> price p = js ''$0.00''
           then (case scrollAndWaitForStability env page 5 (delay env 3000 s1) of
                   None \<Rightarrow> None
                 | Some (Inl e, s2) \<Rightarrow> Some (Inl e, s2)
                 | Some (Inr _, s2) \<Rightarrow> retryLoop env page False (attempts + 1) productData s2)
           else Some (Inr (True, attempts + 1, productData), s1)))"
proof -
  have a: "isInvalidEntry \<lparr>productName = n, price = js ''$0.00''\<rparr>"
    by (simp add: isInvalidEntry_def)
  have b: "isInvalidEntry (extractFieldsFromCard
         \<lparr>title_product_name = Some (js ''Stud''), price_dollars = None, price_cents = None\<rparr>)"
    by (simp add: isInvalidEntry_def extract_price textOf_def stripNonDigits_def orElse_def js_def)
  have c: "isInvalidEntry (extractFieldsFromCard (mkCard ''Stud'' ''$0'' ''00''))"
    by (simp add: isInvalidEntry_def extract_price textOf_def stripNonDigits_def orElse_def js_def
        mkCard_def isDigit_def)
  have d: "isInvalidEntry (extractFieldsFromCard (mkCard ''Stud'' ''N/A'' ''--''))"
    by (simp add: isInvalidEntry_def extract_price textOf_def stripNonDigits_def orElse_def js_def
        mkCard_def isDigit_def)
  have e: "retryLoop env page False attempts previous s =
          (if \<exists>p \<in> set productData. productName p = [] \<or> price p = js ''$0.00''
           then (case scrollAndWaitForStability env page 5 (delay env 3000 s1) of
                   None \<Rightarrow> None
                 | Some (Inl e, s2) \<Rightarrow> Some (Inl e, s2)
                 | Some (Inr _, s2) \<Rightarrow> retryLoop env page False (attempts + 1) productData s2)
           else Some (Inr (True, attempts + 1, productData), s1))"
    if "extractCards env page s = (Inr productData, s1)" "attempts < 3"
    using that invalid_iff[of productData] by (simp add: retryLoop_step)
  from a b c d e invalid_iff show ?thesis by blast
qed

theorem validation_classifies_witness:
  "extractCards (staticEnv [mkCard ''Stud'' ''2'' ''98'', mkCard '''' ''3'' ''10'']) 0 initial
     = (Inr [\<lparr>productName = js ''Stud'', price = js ''$2.98''\<rparr>,
             \<lparr>productName = [], price = js ''$3.10''\<rparr>],
        \<lparr>world = 0, trace = [EvExtractCards 0
            (Some [mkCard ''Stud'' ''2'' ''98'', mkCard '''' ''3'' ''10''])]\<rparr>)
   \<and> (0::nat) < 3
   \<and> 0 < length (invalidEntries [\<lparr>productName = js ''Stud'', price = js ''$2.98''\<rparr>,
             \<lparr>productName = [], price = js ''$3.10''\<rparr>])
   \<and> retryLoop (staticEnv [mkCard ''Stud'' ''2'' ''98'', mkCard '''' ''3'' ''10'']) 0 False 0 [] initial
      = (case scrollAndWaitForStability (staticEnv [mkCard ''Stud'' ''2'' ''98'', mkCard '''' ''3'' ''10'']) 0 5
               (delay (staticEnv [mkCard ''Stud'' ''2'' ''98'', mkCard '''' ''3'' ''10'']) 3000
                  \<lparr>world = 0, trace = [EvExtractCards 0
                     (Some [mkCard ''Stud'' ''2'' ''98'', mkCard '''' ''3'' ''10''])]\<rparr>) of
           None \<Rightarrow> None
         | Some (Inl e, s2) \<Rightarrow> Some (Inl e, s2)
         | Some (Inr _, s2) \<Rightarrow>
             retryLoop (staticEnv [mkCard ''Stud'' ''2'' ''98'', mkCard '''' ''3'' ''10'']) 0 False 1
               [\<lparr>productName = js ''Stud'', price = js ''$2.98''\<rparr>,
                \<lparr>productName = [], price = js ''$3.10''\<rparr>] s2)"
proof -
  have x: "extractCards (staticEnv [mkCard ''Stud'' ''2'' ''98'', mkCard '''' ''3'' ''10'']) 0 initial
     = (Inr [\<lparr>productName = js ''Stud'', price = js ''$2.98''\<rparr>,
             \<lparr>productName = [], price = js ''$3.10''\<rparr>],
        \<lparr>world = 0, trace = [EvExtractCards 0
            (Some [mkCard ''Stud'' ''2'' ''98'', mkCard '''' ''3'' ''10''])]\<rparr>)"
    by (simp add: extractCards_def staticEnv_def initial_def mkCard_def extractFieldsFromCard_def
        getText_def trim_def isWhiteSpace_def js_def stripNonDigits_def isDigit_def orElse_def)
  have y: "\<exists>p \<in> set [\<lparr>productName = js ''Stud'', price = js ''$2.98''\<rparr>,
             \<lparr>productName = [], price = js ''$3.10''\<rparr>]. productName p = [] \<or> price p = js ''$0.00''"
    by simp
  show ?thesis
    using validation_classifies[of "[\<lparr>productName = js ''Stud'', price = js ''$2.98''\<rparr>,
             \<lparr>productName = [], price = js ''$3.10''\<rparr>]" "[]"
        "staticEnv [mkCard ''Stud'' ''2'' ''98'', mkCard '''' ''3'' ''10'']" 0 initial
        "\<lparr>world = 0, trace = [EvExtractCards 0
            (Some [mkCard ''Stud'' ''2'' ''98'', mkCard '''' ''3'' ''10''])]\<rparr>" 0 "[]"] x y
    by (simp add: invalidEntries_def isInvalidEntry_def
        cong: option.case_cong prod.case_cong sum.case_cong)
qed

subsection \<open>What the retry loop adds to the trace\<close>

lemma extractions_append: "extractions (xs @ ys) = extractions xs @ extractions ys"
  by (simp add: extractions_def map_filter_def)

lemma extractions_simps:
  "extractions [] = []"
  "extractions (EvExtractCards p (Some cs) # evs) = cs # extractions evs"
  "extractions (EvExtractCards p None # evs) = extractions evs"
  by (simp_all add: extractions_def map_filter_def)

lemma stabilityEvent_cases:
  "stabilityEvent ev \<Longrightarrow> \<not> isExtract ev \<and> \<not> isScreenshot ev \<and> \<not> isQueryNext ev \<and> \<not> isClickNext ev
     \<and> \<not> isCloseBrowser ev \<and> \<not> isProcessExit ev \<and> extraction ev = None"
  by (induction ev rule: stabilityEvent.induct) simp_all

lemma stability_events:
  assumes "list_all stabilityEvent evs"
  shows "extractions evs = []" "filter isExtract evs = []" "filter isScreenshot evs = []"
    "filter isQueryNext evs = []" "filter isClickNext evs = []" "filter isCloseBrowser evs = []"
    "filter isProcessExit evs = []" "list_all retryEvent evs"
  using assms
  by (induction evs) (auto simp: extractions_def map_filter_def retryEvent_def dest: stabilityEvent_cases)

lemma extractCards_trace:
  assumes "extractCards env page s = (r, s1)"
  shows "(\<exists>e. r = Inl e \<and> trace s1 = trace s @ [EvExtractCards page None])
       \<or> (\<exists>cards. r = Inr (map extractFieldsFromCard cards)
             \<and> trace s1 = trace s @ [EvExtractCards page (Some cards)])"
  using assms by (auto simp: extractCards_def split: prod.splits sum.splits)

lemma refresh_trace:
  assumes "scrollAndWaitForStability env page m (delay env t s1) = Some (r, s2)"
  shows "\<exists>evs. trace s2 = trace s1 @ evs \<and> list_all stabilityEvent evs"
proof -
  have "extends stabilityEvent (delay env t s1) s2"
    using extends_stabilityLoop[OF assms[unfolded scrollAndWaitForStability_def]] by simp
  with extends_delay[of stabilityEvent t s1 env] have "extends stabilityEvent s1 s2"
    by (auto intro: extends_trans)
  then show ?thesis by (simp add: extends_def)
qed

lemma retryEvent_extract: "retryEvent (EvExtractCards p r)"
  by (simp add: retryEvent_def)

lemma retryLoop_throw:
  "extractCards env page s = (Inl e, s1) \<Longrightarrow> attempts < 3 \<Longrightarrow>
   retryLoop env page False attempts previous s = Some (Inl e, s1)"
  by (subst retryLoop.simps) simp

lemma retryLoop_trace:
  "retryLoop env page v a pd s = Some (r, s') \<Longrightarrow>
   \<exists>evs. trace s' = trace s @ evs \<and> list_all retryEvent evs
     \<and> length (filter isExtract evs) \<le> 3 - a
     \<and> (v \<or> 3 \<le> a \<longrightarrow> evs = [] \<and> r = Inr (v, a, pd))
     \<and> (\<forall>v' a' pd'. r = Inr (v', a', pd') \<longrightarrow> \<not> v \<longrightarrow> a < 3 \<longrightarrow>
          extractions evs \<noteq> [] \<and> pd' = map extractFieldsFromCard (last (extractions evs))
          \<and> a' = a + length (extractions evs)
          \<and> length (filter isExtract evs) = length (extractions evs)
          \<and> (\<forall>cs \<in> set (butlast (extractions evs)). invalidEntries (map extractFieldsFromCard cs) \<noteq> [])
          \<and> v' = (invalidEntries pd' = []) \<and> (\<not> v' \<longrightarrow> a' = 3))"
proof (induction env page v a pd s arbitrary: r s' rule: retryLoop.induct)
  case (1 env page v a pd s)
  show ?case
  proof (cases "\<not> v \<and> a < 3")
    case False
    with 1(3) have "r = Inr (v, a, pd)" "s' = s"
      by (auto simp: retryLoop_done)
    with False show ?thesis by auto
  next
    case True
    obtain r1 s1 where x: "extractCards env page s = (r1, s1)" by force
    from extractCards_trace[OF x] show ?thesis
    proof (elim disjE exE conjE)
      fix e assume e: "r1 = Inl e" "trace s1 = trace s @ [EvExtractCards page None]"
      with 1(3) True x have "r = Inl e" "s' = s1"
        by (auto simp: retryLoop_throw)
      with e True show ?thesis by (auto simp: retryEvent_extract)
    next
      fix cards assume c: "r1 = Inr (map extractFieldsFromCard cards)"
        "trace s1 = trace s @ [EvExtractCards page (Some cards)]"
      let ?pd1 = "map extractFieldsFromCard cards"
      show ?thesis
      proof (cases "0 < length (invalidEntries ?pd1)")
        case False
        with 1(3) True x c have "r = Inr (True, a + 1, ?pd1)" "s' = s1"
          by (auto simp: retryLoop_step retryLoop_done)
        with c True False show ?thesis
          by (auto simp: retryEvent_extract extractions_simps)
      next
        case inv: True
        show ?thesis
        proof (cases "scrollAndWaitForStability env page 5 (delay env 3000 s1)")
          case None
          with 1(3) True x c inv show ?thesis by (simp add: retryLoop_step)
        next
          case (Some y)
          obtain r2 s2 where y: "y = (r2, s2)" by force
          from refresh_trace[OF Some[unfolded y]] obtain evs1 where
            e1: "trace s2 = trace s1 @ evs1" "list_all stabilityEvent evs1" by blast
          note st = stability_events[OF e1(2)]
          show ?thesis
          proof (cases r2)
            case (Inl e)
            with 1(3) True x c inv Some y have "r = Inl e" "s' = s2"
              by (auto simp: retryLoop_step)
            with c e1 st True show ?thesis
              by (auto simp: retryEvent_extract)
          next
            case (Inr cnt)
            with 1(3) True x c inv Some y
            have rec: "retryLoop env page v (a + 1) ?pd1 s2 = Some (r, s')"
              by (auto simp: retryLoop_step)
            from 1(1)[OF True x[symmetric] _ _ Some[unfolded y] _ _ rec] c inv Inr
            obtain evs2 where e2: "trace s' = trace s2 @ evs2" "list_all retryEvent evs2"
              "length (filter isExtract evs2) \<le> 3 - (a + 1)"
              "v \<or> 3 \<le> a + 1 \<longrightarrow> evs2 = [] \<and> r = Inr (v, a + 1, ?pd1)"
              "\<forall>v' a' pd'. r = Inr (v', a', pd') \<longrightarrow> \<not> v \<longrightarrow> a + 1 < 3 \<longrightarrow>
                extractions evs2 \<noteq> [] \<and> pd' = map extractFieldsFromCard (last (extractions evs2))
                \<and> a' = a + 1 + length (extractions evs2)
                \<and> length (filter isExtract evs2) = length (extractions evs2)
                \<and> (\<forall>cs \<in> set (butlast (extractions evs2)). invalidEntries (map extractFieldsFromCard cs) \<noteq> [])
                \<and> v' = (invalidEntries pd' = []) \<and> (\<not> v' \<longrightarrow> a' = 3)"
              by auto
            let ?evs = "EvExtractCards page (Some cards) # evs1 @ evs2"
            have t: "trace s' = trace s @ ?evs" using c e1 e2 by simp
            have k: "list_all retryEvent ?evs" using st e2 by (simp add: retryEvent_extract)
            from True have a3: "a < 3" by simp
            have n: "length (filter isExtract ?evs) \<le> 3 - a" using st e2(3) a3 by simp
            have ex: "extractions ?evs = cards # extractions evs2"
              using st by (simp add: extractions_simps extractions_append)
            have d: "\<forall>v' a' pd'. r = Inr (v', a', pd') \<longrightarrow>
                extractions ?evs \<noteq> [] \<and> pd' = map extractFieldsFromCard (last (extractions ?evs))
                \<and> a' = a + length (extractions ?evs)
                \<and> length (filter isExtract ?evs) = length (extractions ?evs)
                \<and> (\<forall>cs \<in> set (butlast (extractions ?evs)). invalidEntries (map extractFieldsFromCard cs) \<noteq> [])
                \<and> v' = (invalidEntries pd' = []) \<and> (\<not> v' \<longrightarrow> a' = 3)"
            proof (cases "a + 1 < 3")
              case True
              with e2(5) \<open>\<not> v \<and> a < 3\<close> inv st show ?thesis
                unfolding ex by auto
            next
              case False
              with e2(4) \<open>\<not> v \<and> a < 3\<close> have "evs2 = []" "r = Inr (v, a + 1, ?pd1)" "a + 1 = 3" by auto
              with inv st \<open>\<not> v \<and> a < 3\<close> show ?thesis
                unfolding ex by (auto simp: extractions_simps)
            qed
            from t k n d True show ?thesis
              by (intro exI[of _ ?evs]) simp
          qed
        qed
      qed
    qed
  qed
qed

subsection \<open>One iteration of the page loop\<close>

lemma pageLoop_unfold:
  "pageLoop env page pageCount allProducts s =
     (case processPage env page (pageCount + 1) s of
        None \<Rightarrow> None
      | Some (Inl e, s3) \<Rightarrow> Some (Inl e, s3)
      | Some (Inr productData, s3) \<Rightarrow>
          (case deciding env page (pageCount + 1) s3 of
             (Inl e, s4) \<Rightarrow> Some (Inl e, s4)
           | (Inr goOn, s4) \<Rightarrow>
               if goOn then pageLoop env page (pageCount + 1) (allProducts @ productData) s4
               else Some (Inr (allProducts @ productData), s4)))"
proof (cases "scrollAndWaitForStability env page 5 s")
  case None
  then show ?thesis
    by (subst pageLoop.simps) (simp add: processPage_def)
next
  case (Some y1)
  obtain r1 s1 where y1: "y1 = (r1, s1)" by force
  show ?thesis
  proof (cases r1)
    case (Inl e)
    with Some y1 show ?thesis
      by (subst pageLoop.simps) (simp add: processPage_def)
  next
    case r1: (Inr c)
    obtain r2 s2 where shot: "pageDo env page (Screenshot (pageCount + 1)) s1 = (r2, s2)" by force
    show ?thesis
    proof (cases r2)
      case (Inl e)
      with Some y1 r1 shot show ?thesis
        by (subst pageLoop.simps) (simp add: processPage_def)
    next
      case r2: (Inr u)
      show ?thesis
      proof (cases "retryLoop env page False 0 [] s2")
        case None
        with Some y1 r1 shot r2 show ?thesis
          by (subst pageLoop.simps) (simp add: processPage_def)
      next
        case retry: (Some y3)
        obtain r3 s3 where y3: "y3 = (r3, s3)" by force
        show ?thesis
        proof (cases r3)
          case (Inl e)
          with Some y1 r1 shot r2 retry y3 show ?thesis
            by (subst pageLoop.simps) (simp add: processPage_def)
        next
          case r3: (Inr vap)
          obtain v a pd where vap: "vap = (v, a, pd)" by (cases vap) auto
          have pp: "processPage env page (pageCount + 1) s = Some (Inr pd, s3)"
            using Some y1 r1 shot r2 retry y3 r3 vap by (simp add: processPage_def)
          have "pageLoop env page pageCount allProducts s =
            (if pageCount + 1 \<ge> MAX_PAGES then Some (Inr (allProducts @ pd), s3)
             else
             (case queryNext env page s3 of
               (Inl e, s4) \<Rightarrow> Some (Inl e, s4)
             | (Inr None, s4) \<Rightarrow> Some (Inr (allProducts @ pd), s4)
             | (Inr (Some nextButton), s4) \<Rightarrow>
             (case hasDisabled env page nextButton s4 of
               (Inl e, s5) \<Rightarrow> Some (Inl e, s5)
             | (Inr isDisabled, s5) \<Rightarrow>
                 if isDisabled then Some (Inr (allProducts @ pd), s5)
                 else
             (case pageDo env page (ClickAndWaitForNavigation nextButton) s5 of
               (Inl e, s6) \<Rightarrow> Some (Inl e, s6)
             | (Inr _, s6) \<Rightarrow>
                 pageLoop env page (pageCount + 1) (allProducts @ pd) (delay env 3000 s6)))))"
            using Some y1 r1 shot r2 retry y3 r3 vap
            by (subst pageLoop.simps) simp
          also have "\<dots> = (case deciding env page (pageCount + 1) s3 of
             (Inl e, s4) \<Rightarrow> Some (Inl e, s4)
           | (Inr goOn, s4) \<Rightarrow>
               if goOn then pageLoop env page (pageCount + 1) (allProducts @ pd) s4
               else Some (Inr (allProducts @ pd), s4))"
            unfolding deciding_def
            by (simp split: prod.splits sum.splits option.splits)
          finally show ?thesis using pp by simp
        qed
      qed
    qed
  qed
qed

subsection \<open>The Stability Detector on a page that does not change\<close>

lemma stableTrace_Suc:
  "stableTrace p (Suc n) =
     [EvScrollHeight p, EvPage p (ScrollBy 1000), EvDelay 500, EvScrollHeight p,
      EvDelay 2000, EvCountCards p] @ stableTrace p n"
  by (simp add: stableTrace_def)

lemma stableTrace_0: "stableTrace p 0 = []"
  by (simp add: stableTrace_def)

lemma scroll_static:
  assumes "e_page E p (ScrollBy 1000) w = (Inr (), w)" "e_scrollHeight E p w = (Inr h, w)"
    "e_delay E 500 w = w"
  shows "scrollUntilNoChange E p 1000 500 \<lparr>world = w, trace = tr\<rparr> =
     Some (Inr (), \<lparr>world = w, trace = tr @
       [EvScrollHeight p, EvPage p (ScrollBy 1000), EvDelay 500, EvScrollHeight p]\<rparr>)"
  using assms
  by (simp add: scrollUntilNoChange_def scrollLoop.simps prim_def delay_def pageDo_def
      scrollHeight_def)

lemma reading_static:
  assumes "e_page E p (ScrollBy 1000) w = (Inr (), w)" "e_scrollHeight E p w = (Inr h, w)"
    "e_delay E 500 w = w" "e_delay E 2000 w = w" "e_queryCards E p w = (Inr cards, w)"
    "st < m"
  shows "stabilityLoop E p m st la \<lparr>world = w, trace = tr\<rparr> =
     stabilityLoop E p m (if length cards = la then st + 1 else 0) (length cards)
       \<lparr>world = w, trace = tr @ stableTrace p 1\<rparr>"
  using assms
  by (subst stabilityLoop.simps)
    (simp add: scroll_static[OF assms(1-3)] prim_def delay_def countCards_def stableTrace_def)

lemma stabilityLoop_static:
  assumes "e_page E p (ScrollBy 1000) w = (Inr (), w)" "e_scrollHeight E p w = (Inr h, w)"
    "e_delay E 500 w = w" "e_delay E 2000 w = w" "e_queryCards E p w = (Inr cards, w)"
  shows "st + k = m \<Longrightarrow> stabilityLoop E p m st (length cards) \<lparr>world = w, trace = tr\<rparr> =
     Some (Inr (length cards), \<lparr>world = w, trace = tr @ stableTrace p k\<rparr>)"
proof (induction k arbitrary: st tr)
  case 0
  then show ?case by (subst stabilityLoop.simps) (simp add: stableTrace_0)
next
  case (Suc k)
  then have "st < m" by simp
  from reading_static[OF assms this, of "length cards" tr] Suc.IH[of "st + 1"] Suc.prems
  show ?case by (simp add: stableTrace_Suc stableTrace_0)
qed

lemma stable_run:
  assumes "e_page E p (ScrollBy 1000) w = (Inr (), w)" "e_scrollHeight E p w = (Inr h, w)"
    "e_delay E 500 w = w" "e_delay E 2000 w = w" "e_queryCards E p w = (Inr cards, w)"
  shows "scrollAndWaitForStability E p 5 \<lparr>world = w, trace = tr\<rparr> =
     Some (Inr (length cards),
           \<lparr>world = w, trace = tr @ stableTrace p (if cards = [] then 5 else 6)\<rparr>)"
proof (cases "cards = []")
  case True
  have "0 + 5 = (5::nat)" by simp
  from stabilityLoop_static[OF assms this, of tr] True show ?thesis
    by (simp add: scrollAndWaitForStability_def)
next
  case False
  have a: "(0::nat) < 5" by simp
  have b: "0 + 5 = (5::nat)" by simp
  from reading_static[OF assms a, of 0 tr] stabilityLoop_static[OF assms b, of "tr @ stableTrace p 1"] False
  show ?thesis
    by (simp add: scrollAndWaitForStability_def stableTrace_def eval_nat_numeral)
qed

subsection \<open>The retry loop\<close>

lemma emitted_append: "trace s' = trace s @ evs \<Longrightarrow> emitted s s' = evs"
  by (simp add: emitted_def)

lemma extract_run:
  assumes "e_queryCards E p w = (Inr cards, w')"
  shows "extractCards E p \<lparr>world = w, trace = tr\<rparr> =
     (Inr (map extractFieldsFromCard cards),
      \<lparr>world = w', trace = tr @ [EvExtractCards p (Some cards)]\<rparr>)"
  using assms by (simp add: extractCards_def)

lemma extract_Stud_0_00:
  "extractFieldsFromCard (mkCard ''Stud'' ''0'' ''00'') = \<lparr>productName = js ''Stud'', price = js ''$0.00''\<rparr>"
  by (simp add: mkCard_def extractFieldsFromCard_def getText_def trim_def isWhiteSpace_def js_def
      stripNonDigits_def isDigit_def orElse_def)

lemma list_all_stableTrace: "list_all stabilityEvent (stableTrace p n)"
  by (induction n) (simp_all add: stableTrace_0 stableTrace_Suc)

lemma retryLoop_three_invalid:
  assumes "extractCards env page s = (Inr pd1, s1)" "invalidEntries pd1 \<noteq> []"
    "scrollAndWaitForStability env page 5 (delay env 3000 s1) = Some (Inr c1, s2)"
    "extractCards env page s2 = (Inr pd2, s3)" "invalidEntries pd2 \<noteq> []"
    "scrollAndWaitForStability env page 5 (delay env 3000 s3) = Some (Inr c2, s4)"
    "extractCards env page s4 = (Inr pd3, s5)" "invalidEntries pd3 \<noteq> []"
  shows "retryLoop env page False 0 [] s =
     (case scrollAndWaitForStability env page 5 (delay env 3000 s5) of
        None \<Rightarrow> None
      | Some (Inl e, s6) \<Rightarrow> Some (Inl e, s6)
      | Some (Inr c3, s6) \<Rightarrow> Some (Inr (False, 3, pd3), s6))"
proof -
  have "retryLoop env page False 0 [] s = retryLoop env page False 1 pd1 s2"
    using assms(1-3) by (simp add: retryLoop_step)
  also have "\<dots> = retryLoop env page False 2 pd2 s4"
    using assms(4-6) by (simp add: retryLoop_step numeral_2_eq_2)
  also have "\<dots> =
     (case scrollAndWaitForStability env page 5 (delay env 3000 s5) of
        None \<Rightarrow> None
      | Some (Inl e, s6) \<Rightarrow> Some (Inl e, s6)
      | Some (Inr c3, s6) \<Rightarrow> retryLoop env page False 3 pd3 s6)"
    using assms(7-8) retryLoop_step[OF assms(7), of 2 pd2]
    by (simp split: option.splits prod.splits sum.splits)
  finally show ?thesis
    by (simp add: retryLoop_done split: option.splits prod.splits sum.splits)
qed

lemma pageLoop_three_invalid:
  assumes "scrollAndWaitForStability env page 5 s0 = Some (Inr c0, s00)"
    "pageDo env page (Screenshot (pageCount + 1)) s00 = (Inr (), s)"
    "extractCards env page s = (Inr pd1, s1)" "invalidEntries pd1 \<noteq> []"
    "scrollAndWaitForStability env page 5 (delay env 3000 s1) = Some (Inr c1, s2)"
    "extractCards env page s2 = (Inr pd2, s3)" "invalidEntries pd2 \<noteq> []"
    "scrollAndWaitForStability env page 5 (delay env 3000 s3) = Some (Inr c2, s4)"
    "extractCards env page s4 = (Inr pd3, s5)" "invalidEntries pd3 \<noteq> []"
  shows "pageLoop env page pageCount allProducts s0 =
     (case scrollAndWaitForStability env page 5 (delay env 3000 s5) of
        None \<Rightarrow> None
      | Some (Inl e, s6) \<Rightarrow> Some (Inl e, s6)
      | Some (Inr c3, s6) \<Rightarrow>
          (case deciding env page (pageCount + 1) s6 of
             (Inl e, s7) \<Rightarrow> Some (Inl e, s7)
           | (Inr goOn, s7) \<Rightarrow>
               if goOn then pageLoop env page (pageCount + 1) (allProducts @ pd3) s7
               else Some (Inr (allProducts @ pd3), s7)))"
proof -
  have pp: "processPage env page (pageCount + 1) s0 =
     (case scrollAndWaitForStability env page 5 (delay env 3000 s5) of
        None \<Rightarrow> None
      | Some (Inl e, s6) \<Rightarrow> Some (Inl e, s6)
      | Some (Inr c3, s6) \<Rightarrow> Some (Inr pd3, s6))"
    using assms(1,2) retryLoop_three_invalid[OF assms(3-10)]
    by (simp add: processPage_def split: option.splits prod.splits sum.splits)
  show ?thesis
    by (subst pageLoop_unfold, subst pp) (simp split: option.splits prod.splits sum.splits)
qed

lemma detaching_extract:
  "extractCards (detachingEnv cards) 0 \<lparr>world = w, trace = tr\<rparr> =
     (Inr (map extractFieldsFromCard cards),
      \<lparr>world = w, trace = tr @ [EvExtractCards 0 (Some cards)]\<rparr>)"
  by (rule extract_run) (simp add: detachingEnv_def staticEnv_def)

lemma detaching_stable:
  assumes "w < 3" "cards \<noteq> []"
  shows "scrollAndWaitForStability (detachingEnv cards) 0 5 \<lparr>world = w, trace = tr\<rparr> =
     Some (Inr (length cards), \<lparr>world = w, trace = tr @ stableTrace 0 6\<rparr>)"
  using stable_run[of "detachingEnv cards" 0 w 1000 cards tr] assms
  by (simp add: detachingEnv_def staticEnv_def)

lemma detaching_refresh:
  assumes "w + 1 < 3" "cards \<noteq> []"
  shows "scrollAndWaitForStability (detachingEnv cards) 0 5
       (delay (detachingEnv cards) 3000 \<lparr>world = w, trace = tr\<rparr>) =
     Some (Inr (length cards),
       \<lparr>world = w + 1, trace = tr @ EvDelay 3000 # stableTrace 0 6\<rparr>)"
proof -
  have "delay (detachingEnv cards) 3000 \<lparr>world = w, trace = tr\<rparr> =
      \<lparr>world = w + 1, trace = tr @ [EvDelay 3000]\<rparr>"
    by (simp add: delay_def detachingEnv_def staticEnv_def)
  then show ?thesis
    using detaching_stable[OF assms, of "tr @ [EvDelay 3000]"] by simp
qed

lemma detaching_throws:
  assumes "3 \<le> w + 1"
  shows "scrollAndWaitForStability (detachingEnv cards) 0 5
       (delay (detachingEnv cards) 3000 \<lparr>world = w, trace = tr\<rparr>) =
     Some (Inl (JsError ''detached frame''),
       \<lparr>world = w + 1, trace = tr @ [EvDelay 3000, EvScrollHeight 0]\<rparr>)"
proof -
  have d: "delay (detachingEnv cards) 3000 \<lparr>world = w, trace = tr\<rparr> =
      \<lparr>world = w + 1, trace = tr @ [EvDelay 3000]\<rparr>"
    by (simp add: delay_def detachingEnv_def staticEnv_def)
  have h: "scrollUntilNoChange (detachingEnv cards) 0 1000 500 \<lparr>world = v, trace = tr'\<rparr> =
      Some (Inl (JsError ''detached frame''), \<lparr>world = v, trace = tr' @ [EvScrollHeight 0]\<rparr>)"
    if "3 \<le> v" for v tr'
    using that
    by (simp add: scrollUntilNoChange_def scrollHeight_def prim_def detachingEnv_def staticEnv_def)
  show ?thesis
    unfolding scrollAndWaitForStability_def d
    using assms by (subst stabilityLoop.simps) (simp add: h)
qed

text \<open>
  Claim C3, as amended. On every page the retry loop extracts at most three times, whatever
  its outcome. When it returns, the number of extractions is the final value of \<open>attempts\<close>,
  between one and three; every extraction but the last returned a snapshot with an invalid
  record (empty name or price \<open>$0.00\<close>), so an attempt was retried only for that reason;
  \<open>validDataFound\<close> says whether the last snapshot has no invalid record; and the loop
  stops before the third attempt only with a valid snapshot. An attempt whose snapshot has
  no invalid record ends the loop at once; an attempt whose snapshot has one is followed by
  the refresh (the wait of three seconds, then the Stability Detector), and only when the
  refresh returns does the loop come back to its head with the attempt counted. The refresh
  is not guarded by the attempt count, so it also runs after a third invalid attempt. When
  three extractions in a row return invalid snapshots, the outcome is that of this last
  refresh: if it returns, the loop returns the third snapshot with \<open>validDataFound = false\<close>
  and the page loop appends that snapshot as it is and goes on to the decision about the
  next page; if it throws, the error leaves the retry loop and the page loop and the
  snapshot is not appended; if it does not return, neither do they.
\<close>

theorem retry_at_most_three_attempts:
  "(retryLoop env page False 0 [] s = Some (r, s') \<longrightarrow>
      length (filter isExtract (emitted s s')) \<le> 3)
   \<and> (retryLoop env page False 0 [] s = Some (Inr (validDataFound, attempts, productData), s') \<longrightarrow>
        1 \<le> attempts \<and> attempts \<le> 3
        \<and> length (filter isExtract (emitted s s')) = attempts
        \<and> length (extractions (emitted s s')) = attempts
        \<and> (\<forall>cards \<in> set (butlast (extractions (emitted s s'))).
              \<exists>p \<in> set (map extractFieldsFromCard cards).
                productName p = [] \<or> price p = js ''$0.00'')
        \<and> validDataFound =
            (\<forall>p \<in> set productData. productName p \<noteq> [] \<and> price p \<noteq> js ''$0.00'')
        \<and> (attempts < 3 \<longrightarrow> validDataFound))
   \<and> (n < 3 \<and> extractCards env page s = (Inr pd1, s1) \<longrightarrow>
        retryLoop env page False n previous s =
          (if \<exists>p \<in> set pd1. productName p = [] \<or> price p = js ''$0.00''
           then (case scrollAndWaitForStability env page 5 (delay env 3000 s1) of
                   None \<Rightarrow> None
                 | Some (Inl e, s2) \<Rightarrow> Some (Inl e, s2)
                 | Some (Inr c, s2) \<Rightarrow> retryLoop env page False (n + 1) pd1 s2)
           else Some (Inr (True, n + 1, pd1), s1)))
   \<and> (extractCards env page s = (Inr pd1, s1) \<and> invalidEntries pd1 \<noteq> []
        \<and> scrollAndWaitForStability env page 5 (delay env 3000 s1) = Some (Inr c1, s2)
        \<and> extractCards env page s2 = (Inr pd2, s3) \<and> invalidEntries pd2 \<noteq> []
        \<and> scrollAndWaitForStability env page 5 (delay env 3000 s3) = Some (Inr c2, s4)
        \<and> extractCards env page s4 = (Inr pd3, s5) \<and> invalidEntries pd3 \<noteq> [] \<longrightarrow>
        retryLoop env page False 0 [] s =
          (case scrollAndWaitForStability env page 5 (delay env 3000 s5) of
             None \<Rightarrow> None
           | Some (Inl e, s6) \<Rightarrow> Some (Inl e, s6)
           | Some (Inr c3, s6) \<Rightarrow> Some (Inr (False, 3, pd3), s6)))
   \<and> (scrollAndWaitForStability env page 5 s0 = Some (Inr c0, s00)
        \<and> pageDo env page (Screenshot (pageCount + 1)) s00 = (Inr (), s)
        \<and> extractCards env page s = (Inr pd1, s1) \<and> invalidEntries pd1 \<noteq> []
        \<and> scrollAndWaitForStability env page 5 (delay env 3000 s1) = Some (Inr c1, s2)
        \<and> extractCards env page s2 = (Inr pd2, s3) \<and> invalidEntries pd2 \<noteq> []
        \<and> scrollAndWaitForStability env page 5 (delay env 3000 s3) = Some (Inr c2, s4)
        \<and> extractCards env page s4 = (Inr pd3, s5) \<and> invalidEntries pd3 \<noteq> [] \<longrightarrow>
        pageLoop env page pageCount allProducts s0 =
          (case scrollAndWaitForStability env page 5 (delay env 3000 s5) of
             None \<Rightarrow> None
           | Some (Inl e, s6) \<Rightarrow> Some (Inl e, s6)
           | Some (Inr c3, s6) \<Rightarrow>
               (case deciding env page (pageCount + 1) s6 of
                  (Inl e, s7) \<Rightarrow> Some (Inl e, s7)
                | (Inr goOn, s7) \<Rightarrow>
                    if goOn then pageLoop env page (pageCount + 1) (allProducts @ pd3) s7
                    else Some (Inr (allProducts @ pd3), s7))))"
proof (intro conjI impI)
  assume a: "retryLoop env page False 0 [] s = Some (r, s')"
  from retryLoop_trace[OF a] obtain evs where
    "trace s' = trace s @ evs" "length (filter isExtract evs) \<le> 3 - 0" by blast
  then show "length (filter isExtract (emitted s s')) \<le> 3"
    by (simp add: emitted_append)
next
  assume a: "retryLoop env page False 0 [] s = Some (Inr (validDataFound, attempts, productData), s')"
  from retryLoop_trace[OF a] obtain evs where e: "trace s' = trace s @ evs"
    "length (filter isExtract evs) \<le> 3 - 0"
    "extractions evs \<noteq> []" "attempts = 0 + length (extractions evs)"
    "length (filter isExtract evs) = length (extractions evs)"
    "\<forall>cs \<in> set (butlast (extractions evs)). invalidEntries (map extractFieldsFromCard cs) \<noteq> []"
    "validDataFound = (invalidEntries productData = [])" "\<not> validDataFound \<longrightarrow> attempts = 3"
    by auto
  have em: "emitted s s' = evs" using e(1) by (rule emitted_append)
  show "1 \<le> attempts" using e(3,4) by (cases "extractions evs") auto
  show "attempts \<le> 3" using e(2,4,5) by simp
  show "length (filter isExtract (emitted s s')) = attempts" using e(4,5) em by simp
  show "length (extractions (emitted s s')) = attempts" using e(4) em by simp
  show "\<forall>cards \<in> set (butlast (extractions (emitted s s'))).
          \<exists>p \<in> set (map extractFieldsFromCard cards). productName p = [] \<or> price p = js ''$0.00''"
    using e(6) invalid_iff unfolding em by fastforce
  show "validDataFound =
          (\<forall>p \<in> set productData. productName p \<noteq> [] \<and> price p \<noteq> js ''$0.00'')"
    using e(7) invalid_iff[of productData] by auto
  show "validDataFound" if "attempts < 3" using e(8) that by auto
next
  assume a: "n < 3 \<and> extractCards env page s = (Inr pd1, s1)"
  then have x: "extractCards env page s = (Inr pd1, s1)" and n: "n < 3" by simp_all
  show "retryLoop env page False n previous s =
          (if \<exists>p \<in> set pd1. productName p = [] \<or> price p = js ''$0.00''
           then (case scrollAndWaitForStability env page 5 (delay env 3000 s1) of
                   None \<Rightarrow> None
                 | Some (Inl e, s2) \<Rightarrow> Some (Inl e, s2)
                 | Some (Inr c, s2) \<Rightarrow> retryLoop env page False (n + 1) pd1 s2)
           else Some (Inr (True, n + 1, pd1), s1))"
    unfolding retryLoop_step[OF x n, of previous] invalid_iff ..
next
  assume "extractCards env page s = (Inr pd1, s1) \<and> invalidEntries pd1 \<noteq> []
        \<and> scrollAndWaitForStability env page 5 (delay env 3000 s1) = Some (Inr c1, s2)
        \<and> extractCards env page s2 = (Inr pd2, s3) \<and> invalidEntries pd2 \<noteq> []
        \<and> scrollAndWaitForStability env page 5 (delay env 3000 s3) = Some (Inr c2, s4)
        \<and> extractCards env page s4 = (Inr pd3, s5) \<and> invalidEntries pd3 \<noteq> []"
  then show "retryLoop env page False 0 [] s =
          (case scrollAndWaitForStability env page 5 (delay env 3000 s5) of
             None \<Rightarrow> None
           | Some (Inl e, s6) \<Rightarrow> Some (Inl e, s6)
           | Some (Inr c3, s6) \<Rightarrow> Some (Inr (False, 3, pd3), s6))"
    using retryLoop_three_invalid[of env page s pd1 s1 c1 s2 pd2 s3 c2 s4 pd3 s5] by blast
next
  assume "scrollAndWaitForStability env page 5 s0 = Some (Inr c0, s00)
        \<and> pageDo env page (Screenshot (pageCount + 1)) s00 = (Inr (), s)
        \<and> extractCards env page s = (Inr pd1, s1) \<and> invalidEntries pd1 \<noteq> []
        \<and> scrollAndWaitForStability env page 5 (delay env 3000 s1) = Some (Inr c1, s2)
        \<and> extractCards env page s2 = (Inr pd2, s3) \<and> invalidEntries pd2 \<noteq> []
        \<and> scrollAndWaitForStability env page 5 (delay env 3000 s3) = Some (Inr c2, s4)
        \<and> extractCards env page s4 = (Inr pd3, s5) \<and> invalidEntries pd3 \<noteq> []"
  then show "pageLoop env page pageCount allProducts s0 =
          (case scrollAndWaitForStability env page 5 (delay env 3000 s5) of
             None \<Rightarrow> None
           | Some (Inl e, s6) \<Rightarrow> Some (Inl e, s6)
           | Some (Inr c3, s6) \<Rightarrow>
               (case deciding env page (pageCount + 1) s6 of
                  (Inl e, s7) \<Rightarrow> Some (Inl e, s7)
                | (Inr goOn, s7) \<Rightarrow>
                    if goOn then pageLoop env page (pageCount + 1) (allProducts @ pd3) s7
                    else Some (Inr (allProducts @ pd3), s7)))"
    using pageLoop_three_invalid[of env page s0 c0 s00 pageCount s pd1 s1 c1 s2 pd2 s3 c2 s4 pd3 s5
        allProducts] by blast
qed

text \<open>
  Two pages with one card priced \<open>$0.00\<close>: on the first every refresh returns, and the
  third snapshot is appended; on the second the third refresh throws, and the page loop
  ends with the error.
\<close>

theorem retry_at_most_three_attempts_witness:
  "retryLoop (staticEnv [mkCard ''Stud'' ''0'' ''00'']) 0 False 0 []
      \<lparr>world = 0, trace = stableTrace 0 6 @ [EvPage 0 (Screenshot 1)]\<rparr>
     = Some (Inr (False, 3, [\<lparr>productName = js ''Stud'', price = js ''$0.00''\<rparr>]),
         \<lparr>world = 0, trace = stableTrace 0 6 @ [EvPage 0 (Screenshot 1)]
            @ (EvExtractCards 0 (Some [mkCard ''Stud'' ''0'' ''00'']) # EvDelay 3000 # stableTrace 0 6)
            @ (EvExtractCards 0 (Some [mkCard ''Stud'' ''0'' ''00'']) # EvDelay 3000 # stableTrace 0 6)
            @ (EvExtractCards 0 (Some [mkCard ''Stud'' ''0'' ''00'']) # EvDelay 3000 # stableTrace 0 6)\<rparr>)
   \<and> length (filter isExtract (emitted
         \<lparr>world = 0 :: nat, trace = stableTrace 0 6 @ [EvPage 0 (Screenshot 1)]\<rparr>
         \<lparr>world = 0, trace = stableTrace 0 6 @ [EvPage 0 (Screenshot 1)]
            @ (EvExtractCards 0 (Some [mkCard ''Stud'' ''0'' ''00'']) # EvDelay 3000 # stableTrace 0 6)
            @ (EvExtractCards 0 (Some [mkCard ''Stud'' ''0'' ''00'']) # EvDelay 3000 # stableTrace 0 6)
            @ (EvExtractCards 0 (Some [mkCard ''Stud'' ''0'' ''00'']) # EvDelay 3000 # stableTrace 0 6)\<rparr>)) = 3
   \<and> invalidEntries [\<lparr>productName = js ''Stud'', price = js ''$0.00''\<rparr>] \<noteq> []
   \<and> pageLoop (staticEnv [mkCard ''Stud'' ''0'' ''00'']) 0 0 [] initial
     = Some (Inr [\<lparr>productName = js ''Stud'', price = js ''$0.00''\<rparr>],
         \<lparr>world = 0, trace = stableTrace 0 6 @ [EvPage 0 (Screenshot 1)]
            @ (EvExtractCards 0 (Some [mkCard ''Stud'' ''0'' ''00'']) # EvDelay 3000 # stableTrace 0 6)
            @ (EvExtractCards 0 (Some [mkCard ''Stud'' ''0'' ''00'']) # EvDelay 3000 # stableTrace 0 6)
            @ (EvExtractCards 0 (Some [mkCard ''Stud'' ''0'' ''00'']) # EvDelay 3000 # stableTrace 0 6)
            @ [EvQueryNext 0]\<rparr>)
   \<and> retryLoop (staticEnv [mkCard ''Stud'' ''0'' ''00'']) 0 False 0 []
        \<lparr>world = 0, trace = stableTrace 0 6 @ [EvPage 0 (Screenshot 1)]\<rparr>
     = retryLoop (staticEnv [mkCard ''Stud'' ''0'' ''00'']) 0 False 1
        [\<lparr>productName = js ''Stud'', price = js ''$0.00''\<rparr>]
        \<lparr>world = 0, trace = stableTrace 0 6 @ [EvPage 0 (Screenshot 1)]
            @ (EvExtractCards 0 (Some [mkCard ''Stud'' ''0'' ''00'']) # EvDelay 3000 # stableTrace 0 6)\<rparr>
   \<and> retryLoop (detachingEnv [mkCard ''Stud'' ''0'' ''00'']) 0 False 0 []
        \<lparr>world = 0, trace = stableTrace 0 6 @ [EvPage 0 (Screenshot 1)]\<rparr>
     = Some (Inl (JsError ''detached frame''),
         \<lparr>world = 3, trace = stableTrace 0 6 @ [EvPage 0 (Screenshot 1)]
            @ (EvExtractCards 0 (Some [mkCard ''Stud'' ''0'' ''00'']) # EvDelay 3000 # stableTrace 0 6)
            @ (EvExtractCards 0 (Some [mkCard ''Stud'' ''0'' ''00'']) # EvDelay 3000 # stableTrace 0 6)
            @ [EvExtractCards 0 (Some [mkCard ''Stud'' ''0'' ''00'']), EvDelay 3000,
               EvScrollHeight 0]\<rparr>)
   \<and> pageLoop (detachingEnv [mkCard ''Stud'' ''0'' ''00'']) 0 0 [] initial
     = Some (Inl (JsError ''detached frame''),
         \<lparr>world = 3, trace = stableTrace 0 6 @ [EvPage 0 (Screenshot 1)]
            @ (EvExtractCards 0 (Some [mkCard ''Stud'' ''0'' ''00'']) # EvDelay 3000 # stableTrace 0 6)
            @ (EvExtractCards 0 (Some [mkCard ''Stud'' ''0'' ''00'']) # EvDelay 3000 # stableTrace 0 6)
            @ [EvExtractCards 0 (Some [mkCard ''Stud'' ''0'' ''00'']), EvDelay 3000,
               EvScrollHeight 0]\<rparr>)"
proof -
  let ?bad = "mkCard ''Stud'' ''0'' ''00''"
  let ?rec = "\<lparr>productName = js ''Stud'', price = js ''$0.00''\<rparr>"
  let ?X = "EvExtractCards 0 (Some [?bad])"
  let ?A = "?X # EvDelay 3000 # stableTrace 0 6"
  let ?t0 = "stableTrace 0 6 @ [EvPage 0 (Screenshot 1)]"
  have inv: "invalidEntries [?rec] \<noteq> []"
    by (simp add: invalidEntries_def isInvalidEntry_def)
  have bad: "\<exists>p \<in> set [?rec]. productName p = [] \<or> price p = js ''$0.00''"
    by simp

  txt \<open>The page that keeps its invalid card: every refresh returns.\<close>
  let ?E = "staticEnv [?bad]"
  have x: "extractCards ?E 0 \<lparr>world = 0, trace = tr\<rparr> =
      (Inr [?rec], \<lparr>world = 0, trace = tr @ [?X]\<rparr>)" for tr
    using extract_run[of ?E 0 0 "[?bad]" 0 tr] by (simp add: staticEnv_def extract_Stud_0_00)
  have st: "scrollAndWaitForStability ?E 0 5 \<lparr>world = 0, trace = tr\<rparr> =
      Some (Inr 1, \<lparr>world = 0, trace = tr @ stableTrace 0 6\<rparr>)" for tr
    using stable_run[of ?E 0 0 1000 "[?bad]" tr] by (simp add: staticEnv_def)
  have r: "scrollAndWaitForStability ?E 0 5 (delay ?E 3000 \<lparr>world = 0, trace = tr @ [?X]\<rparr>) =
      Some (Inr 1, \<lparr>world = 0, trace = tr @ ?A\<rparr>)" for tr
    using st[of "tr @ [?X, EvDelay 3000]"] by (simp add: delay_def staticEnv_def)
  have st0: "scrollAndWaitForStability ?E 0 5 initial =
      Some (Inr 1, \<lparr>world = 0, trace = stableTrace 0 6\<rparr>)"
    using st[of "[]"] by (simp add: initial_def)
  have shot: "pageDo ?E 0 (Screenshot (0 + 1)) \<lparr>world = 0, trace = stableTrace 0 6\<rparr> =
      (Inr (), \<lparr>world = 0, trace = ?t0\<rparr>)"
    by (simp add: pageDo_def prim_def staticEnv_def)
  have dec: "deciding ?E 0 (0 + 1) \<lparr>world = 0, trace = tr\<rparr> =
      (Inr False, \<lparr>world = 0, trace = tr @ [EvQueryNext 0]\<rparr>)" for tr
    by (simp add: deciding_def MAX_PAGES_def queryNext_def prim_def staticEnv_def)
  have x1: "extractCards ?E 0 \<lparr>world = 0, trace = ?t0\<rparr> =
      (Inr [?rec], \<lparr>world = 0, trace = ?t0 @ [?X]\<rparr>)"
    using x[of ?t0] .
  have r1: "scrollAndWaitForStability ?E 0 5 (delay ?E 3000 \<lparr>world = 0, trace = ?t0 @ [?X]\<rparr>) =
      Some (Inr 1, \<lparr>world = 0, trace = ?t0 @ ?A\<rparr>)"
    using r[of ?t0] .
  have x2: "extractCards ?E 0 \<lparr>world = 0, trace = ?t0 @ ?A\<rparr> =
      (Inr [?rec], \<lparr>world = 0, trace = ?t0 @ ?A @ [?X]\<rparr>)"
    using x[of "?t0 @ ?A"] by simp
  have r2: "scrollAndWaitForStability ?E 0 5
        (delay ?E 3000 \<lparr>world = 0, trace = ?t0 @ ?A @ [?X]\<rparr>) =
      Some (Inr 1, \<lparr>world = 0, trace = ?t0 @ ?A @ ?A\<rparr>)"
    using r[of "?t0 @ ?A"] by simp
  have x3: "extractCards ?E 0 \<lparr>world = 0, trace = ?t0 @ ?A @ ?A\<rparr> =
      (Inr [?rec], \<lparr>world = 0, trace = ?t0 @ ?A @ ?A @ [?X]\<rparr>)"
    using x[of "?t0 @ ?A @ ?A"] by simp
  have r3: "scrollAndWaitForStability ?E 0 5
        (delay ?E 3000 \<lparr>world = 0, trace = ?t0 @ ?A @ ?A @ [?X]\<rparr>) =
      Some (Inr 1, \<lparr>world = 0, trace = ?t0 @ ?A @ ?A @ ?A\<rparr>)"
    using r[of "?t0 @ ?A @ ?A"] by simp
  note inst = retry_at_most_three_attempts[where env = "?E" and page = 0
      and s = "\<lparr>world = 0, trace = ?t0\<rparr>"
      and ?s1.0 = "\<lparr>world = 0, trace = ?t0 @ [?X]\<rparr>"
      and ?s2.0 = "\<lparr>world = 0, trace = ?t0 @ ?A\<rparr>"
      and ?s3.0 = "\<lparr>world = 0, trace = ?t0 @ ?A @ [?X]\<rparr>"
      and ?s4.0 = "\<lparr>world = 0, trace = ?t0 @ ?A @ ?A\<rparr>"
      and ?s5.0 = "\<lparr>world = 0, trace = ?t0 @ ?A @ ?A @ [?X]\<rparr>"
      and ?pd1.0 = "[?rec]" and ?pd2.0 = "[?rec]" and ?pd3.0 = "[?rec]"
      and ?c1.0 = 1 and ?c2.0 = 1
      and r = "Inr (False, 3, [?rec])"
      and validDataFound = False and attempts = 3 and productData = "[?rec]"
      and s' = "\<lparr>world = 0, trace = ?t0 @ ?A @ ?A @ ?A\<rparr>"
      and ?s0.0 = initial and ?c0.0 = 1
      and ?s00.0 = "\<lparr>world = 0, trace = stableTrace 0 6\<rparr>"
      and pageCount = 0 and allProducts = "[]" and n = 0 and previous = "[]"]
  have three: "extractCards ?E 0 \<lparr>world = 0, trace = ?t0\<rparr> =
        (Inr [?rec], \<lparr>world = 0, trace = ?t0 @ [?X]\<rparr>) \<and> invalidEntries [?rec] \<noteq> []
      \<and> scrollAndWaitForStability ?E 0 5 (delay ?E 3000 \<lparr>world = 0, trace = ?t0 @ [?X]\<rparr>) =
        Some (Inr 1, \<lparr>world = 0, trace = ?t0 @ ?A\<rparr>)
      \<and> extractCards ?E 0 \<lparr>world = 0, trace = ?t0 @ ?A\<rparr> =
        (Inr [?rec], \<lparr>world = 0, trace = ?t0 @ ?A @ [?X]\<rparr>) \<and> invalidEntries [?rec] \<noteq> []
      \<and> scrollAndWaitForStability ?E 0 5
          (delay ?E 3000 \<lparr>world = 0, trace = ?t0 @ ?A @ [?X]\<rparr>) =
        Some (Inr 1, \<lparr>world = 0, trace = ?t0 @ ?A @ ?A\<rparr>)
      \<and> extractCards ?E 0 \<lparr>world = 0, trace = ?t0 @ ?A @ ?A\<rparr> =
        (Inr [?rec], \<lparr>world = 0, trace = ?t0 @ ?A @ ?A @ [?X]\<rparr>) \<and> invalidEntries [?rec] \<noteq> []"
    using x1 r1 x2 r2 x3 inv by (intro conjI)
  have chain: "retryLoop ?E 0 False 0 [] \<lparr>world = 0, trace = ?t0\<rparr> =
      Some (Inr (False, 3, [?rec]), \<lparr>world = 0, trace = ?t0 @ ?A @ ?A @ ?A\<rparr>)"
    using inst[THEN conjunct2, THEN conjunct2, THEN conjunct2, THEN conjunct1, THEN mp, OF three]
    unfolding r3 by simp
  have cnt: "length (filter isExtract (emitted \<lparr>world = 0 :: nat, trace = ?t0\<rparr>
      \<lparr>world = 0, trace = ?t0 @ ?A @ ?A @ ?A\<rparr>)) = 3"
    using inst[THEN conjunct2, THEN conjunct1, THEN mp, OF chain,
        THEN conjunct2, THEN conjunct2, THEN conjunct1] .
  have pg: "pageLoop ?E 0 0 [] initial =
      Some (Inr [?rec], \<lparr>world = 0, trace = ?t0 @ ?A @ ?A @ ?A @ [EvQueryNext 0]\<rparr>)"
    using inst[THEN conjunct2, THEN conjunct2, THEN conjunct2, THEN conjunct2, THEN mp,
        OF conjI[OF st0 conjI[OF shot three]]] dec[of "?t0 @ ?A @ ?A @ ?A"]
    unfolding r3 by simp
  have step: "retryLoop ?E 0 False 0 [] \<lparr>world = 0, trace = ?t0\<rparr> =
      retryLoop ?E 0 False 1 [?rec] \<lparr>world = 0, trace = ?t0 @ ?A\<rparr>"
    using inst[THEN conjunct2, THEN conjunct2, THEN conjunct1, THEN mp, OF conjI[OF _ x1]]
    unfolding r1 by simp

  txt \<open>The page whose frame is detached during the third refresh.\<close>
  let ?D = "detachingEnv [?bad]"
  let ?B = "[?X, EvDelay 3000, EvScrollHeight 0]"
  have dx: "extractCards ?D 0 \<lparr>world = w, trace = tr\<rparr> =
      (Inr [?rec], \<lparr>world = w, trace = tr @ [?X]\<rparr>)" for w tr
    using detaching_extract[of "[?bad]" w tr] by (simp add: extract_Stud_0_00)
  have dst0: "scrollAndWaitForStability ?D 0 5 initial =
      Some (Inr 1, \<lparr>world = 0, trace = stableTrace 0 6\<rparr>)"
    using detaching_stable[of 0 "[?bad]" "[]"] by (simp add: initial_def)
  have dshot: "pageDo ?D 0 (Screenshot (0 + 1)) \<lparr>world = 0, trace = stableTrace 0 6\<rparr> =
      (Inr (), \<lparr>world = 0, trace = ?t0\<rparr>)"
    by (simp add: pageDo_def prim_def detachingEnv_def staticEnv_def)
  have dx1: "extractCards ?D 0 \<lparr>world = 0, trace = ?t0\<rparr> =
      (Inr [?rec], \<lparr>world = 0, trace = ?t0 @ [?X]\<rparr>)"
    using dx[of 0 ?t0] .
  have dr1: "scrollAndWaitForStability ?D 0 5 (delay ?D 3000 \<lparr>world = 0, trace = ?t0 @ [?X]\<rparr>) =
      Some (Inr 1, \<lparr>world = 1, trace = ?t0 @ ?A\<rparr>)"
    using detaching_refresh[of 0 "[?bad]" "?t0 @ [?X]"] by simp
  have dx2: "extractCards ?D 0 \<lparr>world = 1, trace = ?t0 @ ?A\<rparr> =
      (Inr [?rec], \<lparr>world = 1, trace = ?t0 @ ?A @ [?X]\<rparr>)"
    using dx[of 1 "?t0 @ ?A"] by simp
  have dr2: "scrollAndWaitForStability ?D 0 5
        (delay ?D 3000 \<lparr>world = 1, trace = ?t0 @ ?A @ [?X]\<rparr>) =
      Some (Inr 1, \<lparr>world = 2, trace = ?t0 @ ?A @ ?A\<rparr>)"
    using detaching_refresh[of 1 "[?bad]" "?t0 @ ?A @ [?X]"] by (simp add: numeral_2_eq_2)
  have dx3: "extractCards ?D 0 \<lparr>world = 2, trace = ?t0 @ ?A @ ?A\<rparr> =
      (Inr [?rec], \<lparr>world = 2, trace = ?t0 @ ?A @ ?A @ [?X]\<rparr>)"
    using dx[of 2 "?t0 @ ?A @ ?A"] by simp
  have dr3: "scrollAndWaitForStability ?D 0 5
        (delay ?D 3000 \<lparr>world = 2, trace = ?t0 @ ?A @ ?A @ [?X]\<rparr>) =
      Some (Inl (JsError ''detached frame''), \<lparr>world = 3, trace = ?t0 @ ?A @ ?A @ ?B\<rparr>)"
    using detaching_throws[of 2 "[?bad]" "?t0 @ ?A @ ?A @ [?X]"] by simp
  note dinst = retry_at_most_three_attempts[where env = "?D" and page = 0
      and s = "\<lparr>world = 0, trace = ?t0\<rparr>"
      and ?s1.0 = "\<lparr>world = 0, trace = ?t0 @ [?X]\<rparr>"
      and ?s2.0 = "\<lparr>world = 1, trace = ?t0 @ ?A\<rparr>"
      and ?s3.0 = "\<lparr>world = 1, trace = ?t0 @ ?A @ [?X]\<rparr>"
      and ?s4.0 = "\<lparr>world = 2, trace = ?t0 @ ?A @ ?A\<rparr>"
      and ?s5.0 = "\<lparr>world = 2, trace = ?t0 @ ?A @ ?A @ [?X]\<rparr>"
      and ?pd1.0 = "[?rec]" and ?pd2.0 = "[?rec]" and ?pd3.0 = "[?rec]"
      and ?c1.0 = 1 and ?c2.0 = 1
      and ?s0.0 = initial and ?c0.0 = 1
      and ?s00.0 = "\<lparr>world = 0, trace = stableTrace 0 6\<rparr>"
      and pageCount = 0 and allProducts = "[]"]
  have dthree: "extractCards ?D 0 \<lparr>world = 0, trace = ?t0\<rparr> =
        (Inr [?rec], \<lparr>world = 0, trace = ?t0 @ [?X]\<rparr>) \<and> invalidEntries [?rec] \<noteq> []
      \<and> scrollAndWaitForStability ?D 0 5 (delay ?D 3000 \<lparr>world = 0, trace = ?t0 @ [?X]\<rparr>) =
        Some (Inr 1, \<lparr>world = 1, trace = ?t0 @ ?A\<rparr>)
      \<and> extractCards ?D 0 \<lparr>world = 1, trace = ?t0 @ ?A\<rparr> =
        (Inr [?rec], \<lparr>world = 1, trace = ?t0 @ ?A @ [?X]\<rparr>) \<and> invalidEntries [?rec] \<noteq> []
      \<and> scrollAndWaitForStability ?D 0 5
          (delay ?D 3000 \<lparr>world = 1, trace = ?t0 @ ?A @ [?X]\<rparr>) =
        Some (Inr 1, \<lparr>world = 2, trace = ?t0 @ ?A @ ?A\<rparr>)
      \<and> extractCards ?D 0 \<lparr>world = 2, trace = ?t0 @ ?A @ ?A\<rparr> =
        (Inr [?rec], \<lparr>world = 2, trace = ?t0 @ ?A @ ?A @ [?X]\<rparr>) \<and> invalidEntries [?rec] \<noteq> []"
    using dx1 dr1 dx2 dr2 dx3 inv by (intro conjI)
  have dchain: "retryLoop ?D 0 False 0 [] \<lparr>world = 0, trace = ?t0\<rparr> =
      Some (Inl (JsError ''detached frame''), \<lparr>world = 3, trace = ?t0 @ ?A @ ?A @ ?B\<rparr>)"
    using dinst[THEN conjunct2, THEN conjunct2, THEN conjunct2, THEN conjunct1, THEN mp, OF dthree]
    unfolding dr3 by simp
  have dpg: "pageLoop ?D 0 0 [] initial =
      Some (Inl (JsError ''detached frame''), \<lparr>world = 3, trace = ?t0 @ ?A @ ?A @ ?B\<rparr>)"
    using dinst[THEN conjunct2, THEN conjunct2, THEN conjunct2, THEN conjunct2, THEN mp,
        OF conjI[OF dst0 conjI[OF dshot dthree]]]
    unfolding dr3 by simp
  from chain cnt inv pg step dchain dpg show ?thesis by simp
qed

subsection \<open>A page without cards\<close>

lemma retryLoop_empty:
  assumes "e_queryCards env page (world s) = (Inr [], w)"
  shows "extractCards env page s =
           (Inr [], \<lparr>world = w, trace = trace s @ [EvExtractCards page (Some [])]\<rparr>)"
    and "retryLoop env page False 0 [] s =
           Some (Inr (True, 1, []), \<lparr>world = w, trace = trace s @ [EvExtractCards page (Some [])]\<rparr>)"
proof -
  show x: "extractCards env page s =
           (Inr [], \<lparr>world = w, trace = trace s @ [EvExtractCards page (Some [])]\<rparr>)"
    using assms by (simp add: extractCards_def)
  show "retryLoop env page False 0 [] s =
           Some (Inr (True, 1, []), \<lparr>world = w, trace = trace s @ [EvExtractCards page (Some [])]\<rparr>)"
    using x by (simp add: retryLoop_step invalidEntries_def)
qed

text \<open>
  Claim C9. On a page where the card query finds no element, the extraction returns the
  empty snapshot, the empty snapshot has no invalid entry, and the retry loop accepts it
  at the first attempt: it returns \<open>validDataFound = true\<close>, \<open>attempts = 1\<close> and the empty
  snapshot, having made the one query and no refresh. The page loop then goes on to the
  decision about the next page with \<open>allProducts\<close> as it was.
\<close>

theorem empty_page_contributes_nothing:
  "(e_queryCards env page (world s) = (Inr [], w) \<longrightarrow>
      extractCards env page s =
        (Inr [], \<lparr>world = w, trace = trace s @ [EvExtractCards page (Some [])]\<rparr>)
      \<and> invalidEntries (map extractFieldsFromCard []) = []
      \<and> retryLoop env page False 0 [] s =
          Some (Inr (True, 1, []),
                \<lparr>world = w, trace = trace s @ [EvExtractCards page (Some [])]\<rparr>))
   \<and> (scrollAndWaitForStability env page 5 s0 = Some (Inr c0, s00)
        \<and> pageDo env page (Screenshot (pageCount + 1)) s00 = (Inr (), s)
        \<and> e_queryCards env page (world s) = (Inr [], w) \<longrightarrow>
        pageLoop env page pageCount allProducts s0 =
          (case deciding env page (pageCount + 1)
                  \<lparr>world = w, trace = trace s @ [EvExtractCards page (Some [])]\<rparr> of
             (Inl e, s7) \<Rightarrow> Some (Inl e, s7)
           | (Inr goOn, s7) \<Rightarrow>
               if goOn then pageLoop env page (pageCount + 1) allProducts s7
               else Some (Inr allProducts, s7)))"
proof (intro conjI impI)
  assume q: "e_queryCards env page (world s) = (Inr [], w)"
  show "extractCards env page s =
        (Inr [], \<lparr>world = w, trace = trace s @ [EvExtractCards page (Some [])]\<rparr>)"
    using retryLoop_empty(1)[OF q] .
  show "invalidEntries (map extractFieldsFromCard []) = []"
    by (simp add: invalidEntries_def)
  show "retryLoop env page False 0 [] s =
          Some (Inr (True, 1, []),
                \<lparr>world = w, trace = trace s @ [EvExtractCards page (Some [])]\<rparr>)"
    using retryLoop_empty(2)[OF q] .
next
  assume a: "scrollAndWaitForStability env page 5 s0 = Some (Inr c0, s00)
        \<and> pageDo env page (Screenshot (pageCount + 1)) s00 = (Inr (), s)
        \<and> e_queryCards env page (world s) = (Inr [], w)"
  then have "processPage env page (pageCount + 1) s0 =
      Some (Inr [], \<lparr>world = w, trace = trace s @ [EvExtractCards page (Some [])]\<rparr>)"
    using retryLoop_empty(2)[of env page s w] by (simp add: processPage_def)
  then show "pageLoop env page pageCount allProducts s0 =
          (case deciding env page (pageCount + 1)
                  \<lparr>world = w, trace = trace s @ [EvExtractCards page (Some [])]\<rparr> of
             (Inl e, s7) \<Rightarrow> Some (Inl e, s7)
           | (Inr goOn, s7) \<Rightarrow>
               if goOn then pageLoop env page (pageCount + 1) allProducts s7
               else Some (Inr allProducts, s7))"
    by (subst pageLoop_unfold) (simp cong: prod.case_cong sum.case_cong if_cong)
qed

theorem empty_page_contributes_nothing_witness:
  "e_queryCards (staticEnv []) 0 0 = (Inr [], 0)
   \<and> scrollAndWaitForStability (staticEnv []) 0 5 initial
       = Some (Inr 0, \<lparr>world = 0, trace = stableTrace 0 5\<rparr>)
   \<and> retryLoop (staticEnv []) 0 False 0 []
        \<lparr>world = 0, trace = stableTrace 0 5 @ [EvPage 0 (Screenshot 1)]\<rparr>
       = Some (Inr (True, 1, []),
           \<lparr>world = 0, trace = stableTrace 0 5 @ [EvPage 0 (Screenshot 1), EvExtractCards 0 (Some [])]\<rparr>)
   \<and> pageLoop (staticEnv []) 0 0 [\<lparr>productName = js ''Stud'', price = js ''$2.98''\<rparr>] initial
       = Some (Inr [\<lparr>productName = js ''Stud'', price = js ''$2.98''\<rparr>],
           \<lparr>world = 0, trace = stableTrace 0 5
              @ [EvPage 0 (Screenshot 1), EvExtractCards 0 (Some []), EvQueryNext 0]\<rparr>)"
proof -
  let ?E = "staticEnv []"
  let ?s = "\<lparr>world = 0, trace = stableTrace 0 5 @ [EvPage 0 (Screenshot 1)]\<rparr>"
  have q: "e_queryCards ?E 0 0 = (Inr [], 0)"
    by (simp add: staticEnv_def)
  have st: "scrollAndWaitForStability ?E 0 5 initial =
      Some (Inr 0, \<lparr>world = 0, trace = stableTrace 0 5\<rparr>)"
    using stable_run[of ?E 0 0 1000 "[]" "[]"] by (simp add: staticEnv_def initial_def)
  have shot: "pageDo ?E 0 (Screenshot (0 + 1)) \<lparr>world = 0, trace = stableTrace 0 5\<rparr> = (Inr (), ?s)"
    by (simp add: pageDo_def prim_def staticEnv_def)
  have dec: "deciding ?E 0 (0 + 1) \<lparr>world = 0, trace = tr\<rparr> =
      (Inr False, \<lparr>world = 0, trace = tr @ [EvQueryNext 0]\<rparr>)" for tr
    by (simp add: deciding_def MAX_PAGES_def queryNext_def prim_def staticEnv_def)
  from empty_page_contributes_nothing[where env = "?E" and page = 0 and s = "?s" and w = 0
      and ?s0.0 = initial and ?c0.0 = 0 and ?s00.0 = "\<lparr>world = 0, trace = stableTrace 0 5\<rparr>"
      and pageCount = 0 and allProducts = "[\<lparr>productName = js ''Stud'', price = js ''$2.98''\<rparr>]"]
    q st shot dec[of "stableTrace 0 5 @ [EvPage 0 (Screenshot 1), EvExtractCards 0 (Some [])]"]
  show ?thesis by simp
qed

subsection \<open>What a page adds to the trace\<close>

lemma retryEvent_stability: "stabilityEvent ev \<Longrightarrow> retryEvent ev"
  by (simp add: retryEvent_def)

lemma retryEvent_cases:
  "retryEvent ev \<Longrightarrow> \<not> isScreenshot ev \<and> \<not> isQueryNext ev \<and> \<not> isClickNext ev
     \<and> \<not> isCloseBrowser ev \<and> \<not> isProcessExit ev"
  unfolding retryEvent_def
  by (cases ev) (auto dest: stabilityEvent_cases)

lemma retry_events:
  assumes "list_all retryEvent evs"
  shows "filter isScreenshot evs = []" "filter isQueryNext evs = []" "filter isClickNext evs = []"
    "filter isCloseBrowser evs = []" "filter isProcessExit evs = []"
  using assms by (induction evs) (auto dest: retryEvent_cases)

text \<open>The trace of \<open>processPage\<close>: stability events, the screenshot, retry events.\<close>

lemma processPage_trace:
  assumes "processPage env page n s = Some (r, s')"
  shows "\<exists>A R. list_all stabilityEvent A \<and> list_all retryEvent R
     \<and> length (filter isExtract R) \<le> 3
     \<and> ((\<exists>e. r = Inl e) \<and> trace s' = trace s @ A
        \<or> trace s' = trace s @ A @ EvPage page (Screenshot n) # R
          \<and> (\<forall>pd. r = Inr pd \<longrightarrow>
                extractions R \<noteq> [] \<and> pd = map extractFieldsFromCard (last (extractions R))))"
proof (cases "scrollAndWaitForStability env page 5 s")
  case None
  with assms show ?thesis by (simp add: processPage_def)
next
  case (Some y1)
  obtain r1 s1 where y1: "y1 = (r1, s1)" by force
  from extends_stabilityLoop[OF Some[unfolded scrollAndWaitForStability_def]] y1
  obtain A where A: "trace s1 = trace s @ A" "list_all stabilityEvent A"
    by (auto simp: extends_def)
  show ?thesis
  proof (cases r1)
    case (Inl e)
    with assms Some y1 have "r = Inl e" "s' = s1" by (auto simp: processPage_def)
    with A show ?thesis by (intro exI[of _ A] exI[of _ "[]"]) simp
  next
    case r1: (Inr c)
    obtain r2 s2 where shot: "pageDo env page (Screenshot n) s1 = (r2, s2)" by force
    then have t2: "trace s2 = trace s1 @ [EvPage page (Screenshot n)]"
      by (auto simp: pageDo_def prim_def split: prod.splits)
    show ?thesis
    proof (cases r2)
      case (Inl e)
      with assms Some y1 r1 shot have "r = Inl e" "s' = s2" by (auto simp: processPage_def)
      with A t2 show ?thesis by (intro exI[of _ A] exI[of _ "[]"]) simp
    next
      case r2: (Inr u)
      show ?thesis
      proof (cases "retryLoop env page False 0 [] s2")
        case None
        with assms Some y1 r1 shot r2 show ?thesis by (simp add: processPage_def)
      next
        case retry: (Some y3)
        obtain r3 s3 where y3: "y3 = (r3, s3)" by force
        from retryLoop_trace[OF retry[unfolded y3]] obtain R where
          R: "trace s3 = trace s2 @ R" "list_all retryEvent R" "length (filter isExtract R) \<le> 3 - 0"
          "\<forall>v' a' pd'. r3 = Inr (v', a', pd') \<longrightarrow>
             extractions R \<noteq> [] \<and> pd' = map extractFieldsFromCard (last (extractions R))"
          by auto
        have s': "s' = s3" and r: "r = (case r3 of Inl e \<Rightarrow> Inl e | Inr (v, a, pd) \<Rightarrow> Inr pd)"
          using assms Some y1 r1 shot r2 retry y3
          by (auto simp: processPage_def split: sum.splits)
        have "trace s' = trace s @ A @ EvPage page (Screenshot n) # R"
          using A t2 R(1) s' by simp
        moreover have "\<forall>pd. r = Inr pd \<longrightarrow>
                extractions R \<noteq> [] \<and> pd = map extractFieldsFromCard (last (extractions R))"
          using R(4) r by (auto split: sum.splits)
        ultimately show ?thesis
          using A(2) R(2,3) by (intro exI[of _ A] exI[of _ R]) simp
      qed
    qed
  qed
qed

lemma decidingEvent_cases:
  "decidingEvent ev \<Longrightarrow> \<not> isExtract ev \<and> \<not> isScreenshot ev
     \<and> \<not> isCloseBrowser ev \<and> \<not> isProcessExit ev \<and> extraction ev = None"
  by (induction ev rule: decidingEvent.induct) simp_all

lemma deciding_events:
  assumes "list_all decidingEvent evs"
  shows "extractions evs = []" "filter isExtract evs = []" "filter isScreenshot evs = []"
    "filter isCloseBrowser evs = []" "filter isProcessExit evs = []"
  using assms
  by (induction evs) (auto simp: extractions_def map_filter_def dest: decidingEvent_cases)

lemma deciding_trace:
  assumes "deciding env page n s = (r, s')"
  shows "\<exists>D. trace s' = trace s @ D \<and> list_all decidingEvent D
     \<and> length (filter isQueryNext D) \<le> 1 \<and> length (filter isClickNext D) \<le> 1
     \<and> (MAX_PAGES \<le> n \<longrightarrow> D = [] \<and> r = Inr False)
     \<and> (r = Inr True \<longrightarrow> n < MAX_PAGES)"
proof (cases "MAX_PAGES \<le> n")
  case True
  with assms show ?thesis by (auto simp: deciding_def)
next
  case False
  obtain r1 s1 where q: "queryNext env page s = (r1, s1)" by force
  then have t1: "trace s1 = trace s @ [EvQueryNext page]"
    by (auto simp: queryNext_def prim_def split: prod.splits)
  show ?thesis
  proof (cases r1)
    case (Inl e)
    with assms False q have "s' = s1" by (auto simp: deciding_def)
    with t1 False show ?thesis by (intro exI[of _ "[EvQueryNext page]"]) simp
  next
    case r1: (Inr nb)
    show ?thesis
    proof (cases nb)
      case None
      with assms False q r1 have "s' = s1" "r = Inr False" by (auto simp: deciding_def)
      with t1 False show ?thesis by (intro exI[of _ "[EvQueryNext page]"]) simp
    next
      case (Some btn)
      obtain r2 s2 where h: "hasDisabled env page btn s1 = (r2, s2)" by force
      then have t2: "trace s2 = trace s1 @ [EvHasDisabled page btn]"
        by (auto simp: hasDisabled_def prim_def split: prod.splits)
      show ?thesis
      proof (cases r2)
        case (Inl e)
        with assms False q r1 Some h have "s' = s2" by (auto simp: deciding_def)
        with t1 t2 False show ?thesis
          by (intro exI[of _ "[EvQueryNext page, EvHasDisabled page btn]"]) simp
      next
        case r2: (Inr dis)
        show ?thesis
        proof (cases dis)
          case True
          with assms False q r1 Some h r2 have "s' = s2" "r = Inr False" by (auto simp: deciding_def)
          with t1 t2 False show ?thesis
            by (intro exI[of _ "[EvQueryNext page, EvHasDisabled page btn]"]) simp
        next
          case nd: False
          obtain r3 s3 where c: "pageDo env page (ClickAndWaitForNavigation btn) s2 = (r3, s3)"
            by force
          then have t3: "trace s3 = trace s2 @ [EvPage page (ClickAndWaitForNavigation btn)]"
            by (auto simp: pageDo_def prim_def split: prod.splits)
          show ?thesis
          proof (cases r3)
            case (Inl e)
            with assms False q r1 Some h r2 nd c have "s' = s3" "r = Inl e" by (auto simp: deciding_def)
            with t1 t2 t3 False show ?thesis
              by (intro exI[of _ "[EvQueryNext page, EvHasDisabled page btn,
                    EvPage page (ClickAndWaitForNavigation btn)]"]) simp
          next
            case (Inr u)
            with assms False q r1 Some h r2 nd c have "s' = delay env 3000 s3"
              by (auto simp: deciding_def)
            with t1 t2 t3 False show ?thesis
              by (intro exI[of _ "[EvQueryNext page, EvHasDisabled page btn,
                    EvPage page (ClickAndWaitForNavigation btn), EvDelay 3000]"])
                (simp add: delay_def)
          qed
        qed
      qed
    qed
  qed
qed

subsection \<open>What the page loop adds to the trace\<close>

lemma pageCards_no_shot: "filter isScreenshot A = [] \<Longrightarrow> pageCards (A @ B) = pageCards B"
  by (induction A) (auto split: if_splits)

lemma takeWhile_no_shot:
  "filter isScreenshot A = [] \<Longrightarrow>
   takeWhile (\<lambda>e. \<not> isScreenshot e) (A @ B) = A @ takeWhile (\<lambda>e. \<not> isScreenshot e) B"
  by (induction A) (auto split: if_splits)

lemma lastExtraction_last: "extractions evs \<noteq> [] \<Longrightarrow> lastExtraction evs = last (extractions evs)"
  by (cases "extractions evs") (simp_all add: lastExtraction_def)

lemma pageLoop_trace:
  "pageLoop env page k acc s = Some (r, s') \<Longrightarrow>
   \<exists>evs. trace s' = trace s @ evs
     \<and> length (filter isScreenshot evs) + k \<le> max (k + 1) MAX_PAGES
     \<and> length (filter isQueryNext evs) + (k + 1) \<le> max (k + 1) MAX_PAGES
     \<and> length (filter isClickNext evs) + (k + 1) \<le> max (k + 1) MAX_PAGES
     \<and> length (filter isExtract evs) \<le> 3 * length (filter isScreenshot evs)
     \<and> filter isCloseBrowser evs = [] \<and> filter isProcessExit evs = []
     \<and> extractions (takeWhile (\<lambda>e. \<not> isScreenshot e) evs) = []
     \<and> (\<forall>res. r = Inr res \<longrightarrow>
          res = acc @ concat (map (map extractFieldsFromCard) (pageCards evs))
          \<and> length (pageCards evs) = length (filter isScreenshot evs))"
proof (induction k arbitrary: acc s rule: measure_induct_rule[where f = "\<lambda>k. MAX_PAGES - k"])
  case (less k)
  let ?n = "k + 1"
  let ?shot = "EvPage page (Screenshot ?n)"
  let ?notShot = "\<lambda>e. \<not> isScreenshot e"
  from less.prems obtain rp s3 where pp: "processPage env page ?n s = Some (rp, s3)"
    by (subst (asm) pageLoop_unfold) (auto split: option.splits)
  from processPage_trace[OF pp] obtain A R where
    A: "list_all stabilityEvent A" and R: "list_all retryEvent R"
    and R3: "length (filter isExtract R) \<le> 3"
    and tr: "(\<exists>e. rp = Inl e) \<and> trace s3 = trace s @ A
        \<or> trace s3 = trace s @ A @ ?shot # R
          \<and> (\<forall>pd. rp = Inr pd \<longrightarrow>
                extractions R \<noteq> [] \<and> pd = map extractFieldsFromCard (last (extractions R)))"
    by blast
  note a = stability_events[OF A]
  note rr = retry_events[OF R]
  have twA: "takeWhile ?notShot A = A"
    using takeWhile_no_shot[OF a(3), of "[]"] by simp
  have exA: "extractions (takeWhile ?notShot A) = []"
    by (simp only: twA a(1))
  have "takeWhile ?notShot (A @ ?shot # rest) = A" for rest
    using takeWhile_no_shot[OF a(3), of "?shot # rest"] by simp
  then have exAs: "extractions (takeWhile ?notShot (A @ ?shot # rest)) = []" for rest
    by (simp only: a(1))
  have k1: "k \<le> max (k + 1) MAX_PAGES" "1 + k \<le> max (k + 1) MAX_PAGES"
    "k + 1 \<le> max (k + 1) MAX_PAGES"
    by linarith+
  show ?case
  proof (cases rp)
    case (Inl e)
    with less.prems pp have res: "r = Inl e" "s' = s3"
      by (subst (asm) pageLoop_unfold, simp)+
    from tr show ?thesis
    proof
      assume "(\<exists>e. rp = Inl e) \<and> trace s3 = trace s @ A"
      with res a exA k1 show ?thesis by (intro exI[of _ A]) simp
    next
      assume "trace s3 = trace s @ A @ ?shot # R
          \<and> (\<forall>pd. rp = Inr pd \<longrightarrow>
                extractions R \<noteq> [] \<and> pd = map extractFieldsFromCard (last (extractions R)))"
      with res a rr R3 exAs[of R] k1 show ?thesis
        by (intro exI[of _ "A @ ?shot # R"]) simp
    qed
  next
    case (Inr pd)
    with tr have t3: "trace s3 = trace s @ A @ ?shot # R"
      and ex: "extractions R \<noteq> []" and pd: "pd = map extractFieldsFromCard (last (extractions R))"
      by auto
    obtain rd s4 where dec: "deciding env page ?n s3 = (rd, s4)" by force
    from deciding_trace[OF dec] obtain D where
      D: "trace s4 = trace s3 @ D" "list_all decidingEvent D"
      "length (filter isQueryNext D) \<le> 1" "length (filter isClickNext D) \<le> 1"
      "MAX_PAGES \<le> ?n \<longrightarrow> D = [] \<and> rd = Inr False" "rd = Inr True \<longrightarrow> ?n < MAX_PAGES"
      by blast
    note d = deciding_events[OF D(2)]
    let ?P = "A @ ?shot # R @ D"
    have t4: "trace s4 = trace s @ ?P" using t3 D(1) by simp
    have shots: "filter isScreenshot ?P = [?shot]" using a rr d by simp
    have qn: "length (filter isQueryNext ?P) \<le> 1" "MAX_PAGES \<le> ?n \<longrightarrow> filter isQueryNext ?P = []"
      using a rr D(3,5) by auto
    have cl: "length (filter isClickNext ?P) \<le> 1" "MAX_PAGES \<le> ?n \<longrightarrow> filter isClickNext ?P = []"
      using a rr D(4,5) by auto
    have exn: "length (filter isExtract ?P) \<le> 3" using a d R3 by simp
    have noclose: "filter isCloseBrowser ?P = []" "filter isProcessExit ?P = []"
      using a rr d by simp_all
    have tw: "takeWhile ?notShot (?P @ rest) = A" for rest
      using a by (simp add: takeWhile_no_shot)
    have rd_no: "filter isScreenshot (R @ D) = []" using rr d by simp
    have pc: "pageCards (?P @ rest) =
        last (extractions R) # pageCards rest"
      if "extractions (takeWhile ?notShot rest) = []" for rest
    proof -
      have "pageCards (?P @ rest) = pageCards (?shot # (R @ D) @ rest)"
        using pageCards_no_shot[OF a(3), of "?shot # (R @ D) @ rest"] by simp
      also have "\<dots> = lastExtraction (takeWhile ?notShot ((R @ D) @ rest)) # pageCards ((R @ D) @ rest)"
        by simp
      also have "takeWhile ?notShot ((R @ D) @ rest) = (R @ D) @ takeWhile ?notShot rest"
        using rd_no by (rule takeWhile_no_shot)
      also have "lastExtraction ((R @ D) @ takeWhile ?notShot rest) = last (extractions R)"
        using that d ex by (simp add: lastExtraction_last extractions_append)
      also have "pageCards ((R @ D) @ rest) = pageCards rest"
        using rd_no by (rule pageCards_no_shot)
      finally show ?thesis .
    qed
    show ?thesis
    proof (cases rd)
      case (Inl e)
      with less.prems pp Inr dec have res: "r = Inl e" "s' = s4"
        by (subst (asm) pageLoop_unfold, simp)+
      with t4 shots qn cl exn noclose exAs[of "R @ D"] k1 show ?thesis
        by (intro exI[of _ ?P]) auto
    next
      case rd: (Inr goOn)
      show ?thesis
      proof (cases goOn)
        case False
        with less.prems pp Inr dec rd have res: "r = Inr (acc @ pd)" "s' = s4"
          by (subst (asm) pageLoop_unfold, simp)+
        have "pageCards ?P = [last (extractions R)]"
          using pc[of "[]"] by (simp add: extractions_simps)
        with res pd t4 shots qn cl exn noclose exAs[of "R @ D"] k1 show ?thesis
          by (intro exI[of _ ?P]) auto
      next
        case True
        with D(6) rd have lt: "?n < MAX_PAGES" by simp
        from less.prems pp Inr dec rd True
        have rec: "pageLoop env page ?n (acc @ pd) s4 = Some (r, s')"
          by (subst (asm) pageLoop_unfold) simp
        have "MAX_PAGES - ?n < MAX_PAGES - k" using lt by simp
        from less.IH[OF this rec] obtain evs2 where
          e2: "trace s' = trace s4 @ evs2"
          "length (filter isScreenshot evs2) + ?n \<le> max (?n + 1) MAX_PAGES"
          "length (filter isQueryNext evs2) + (?n + 1) \<le> max (?n + 1) MAX_PAGES"
          "length (filter isClickNext evs2) + (?n + 1) \<le> max (?n + 1) MAX_PAGES"
          "length (filter isExtract evs2) \<le> 3 * length (filter isScreenshot evs2)"
          "filter isCloseBrowser evs2 = []" "filter isProcessExit evs2 = []"
          "extractions (takeWhile ?notShot evs2) = []"
          "\<forall>res. r = Inr res \<longrightarrow>
            res = (acc @ pd) @ concat (map (map extractFieldsFromCard) (pageCards evs2))
            \<and> length (pageCards evs2) = length (filter isScreenshot evs2)"
          by blast
        let ?evs = "?P @ evs2"
        have 1: "trace s' = trace s @ ?evs" using t4 e2(1) by simp
        have sh: "filter isScreenshot ?evs = ?shot # filter isScreenshot evs2"
          using shots by simp
        have 2: "length (filter isScreenshot ?evs) + k \<le> max (k + 1) MAX_PAGES"
          using e2(2) lt unfolding sh by simp
        have 3: "length (filter isQueryNext ?evs) + (k + 1) \<le> max (k + 1) MAX_PAGES"
          using e2(3) qn(1) lt by simp
        have 4: "length (filter isClickNext ?evs) + (k + 1) \<le> max (k + 1) MAX_PAGES"
          using e2(4) cl(1) lt by simp
        have 5: "length (filter isExtract ?evs) \<le> 3 * length (filter isScreenshot ?evs)"
          using e2(5) exn unfolding sh by simp
        have 6: "filter isCloseBrowser ?evs = []" "filter isProcessExit ?evs = []"
          using e2(6,7) noclose by simp_all
        have 7: "extractions (takeWhile ?notShot ?evs) = []"
          using exAs[of "R @ D @ evs2"] by simp
        have 8: "\<forall>res. r = Inr res \<longrightarrow>
            res = acc @ concat (map (map extractFieldsFromCard) (pageCards ?evs))
            \<and> length (pageCards ?evs) = length (filter isScreenshot ?evs)"
          using e2(9) pd unfolding pc[OF e2(8)] sh by simp
        from 1 2 3 4 5 6 7 8 show ?thesis
          by (intro exI[of _ ?evs] conjI)
      qed
    qed
  qed
qed

subsection \<open>The page cap\<close>

lemma scrapeAllProducts_trace:
  assumes "scrapeAllProducts env page url s = Some (r, s')"
  shows "\<exists>evs. trace s' = trace s @ evs
     \<and> length (filter isScreenshot evs) \<le> MAX_PAGES
     \<and> length (filter isQueryNext evs) + 1 \<le> MAX_PAGES
     \<and> length (filter isClickNext evs) + 1 \<le> MAX_PAGES
     \<and> length (filter isExtract evs) \<le> 3 * length (filter isScreenshot evs)
     \<and> filter isCloseBrowser evs = [] \<and> filter isProcessExit evs = []
     \<and> (\<forall>res. r = Inr res \<longrightarrow>
          res = concat (map (map extractFieldsFromCard) (pageCards evs))
          \<and> length (pageCards evs) = length (filter isScreenshot evs))"
proof -
  obtain r1 s1 where g: "pageDo env page (Goto url) s = (r1, s1)" by force
  then have t1: "trace s1 = trace s @ [EvPage page (Goto url)]"
    by (auto simp: pageDo_def prim_def split: prod.splits)
  show ?thesis
  proof (cases r1)
    case (Inl e)
    with assms g have "r = Inl e" "s' = s1" by (auto simp: scrapeAllProducts_def)
    with t1 show ?thesis
      by (intro exI[of _ "[EvPage page (Goto url)]"]) (simp add: MAX_PAGES_def)
  next
    case (Inr u)
    with assms g have "pageLoop env page 0 [] (delay env 5000 s1) = Some (r, s')"
      by (simp add: scrapeAllProducts_def)
    from pageLoop_trace[OF this] obtain evs where
      e: "trace s' = trace (delay env 5000 s1) @ evs"
      "length (filter isScreenshot evs) + 0 \<le> max (0 + 1) MAX_PAGES"
      "length (filter isQueryNext evs) + (0 + 1) \<le> max (0 + 1) MAX_PAGES"
      "length (filter isClickNext evs) + (0 + 1) \<le> max (0 + 1) MAX_PAGES"
      "length (filter isExtract evs) \<le> 3 * length (filter isScreenshot evs)"
      "filter isCloseBrowser evs = []" "filter isProcessExit evs = []"
      "\<forall>res. r = Inr res \<longrightarrow>
          res = [] @ concat (map (map extractFieldsFromCard) (pageCards evs))
          \<and> length (pageCards evs) = length (filter isScreenshot evs)"
      by blast
    let ?evs = "EvPage page (Goto url) # EvDelay 5000 # evs"
    have "trace s' = trace s @ ?evs" using e(1) t1 by (simp add: delay_def)
    moreover have "pageCards ?evs = pageCards evs" by simp
    ultimately show ?thesis
      using e(2-8) by (intro exI[of _ ?evs]) (simp add: MAX_PAGES_def)
  qed
qed

lemma deciding_cap: "MAX_PAGES \<le> pageCount \<Longrightarrow> deciding env page pageCount s = (Inr False, s)"
  by (simp add: deciding_def)

lemma extract_Stud_2_98:
  "extractFieldsFromCard (mkCard ''Stud'' ''2'' ''98'') = \<lparr>productName = js ''Stud'', price = js ''$2.98''\<rparr>"
  by (simp add: mkCard_def extractFieldsFromCard_def getText_def trim_def isWhiteSpace_def js_def
      stripNonDigits_def isDigit_def orElse_def)

lemma retryLoop_valid:
  assumes "e_queryCards E p w = (Inr cards, w')" "invalidEntries (map extractFieldsFromCard cards) = []"
  shows "retryLoop E p False 0 [] \<lparr>world = w, trace = tr\<rparr> =
     Some (Inr (True, 1, map extractFieldsFromCard cards),
           \<lparr>world = w', trace = tr @ [EvExtractCards p (Some cards)]\<rparr>)"
  using extract_run[OF assms(1), of tr] assms(2) by (simp add: retryLoop_step)

lemma endless_processPage:
  assumes "invalidEntries (map extractFieldsFromCard cards) = []"
  shows "processPage (endlessEnv cards) 0 n \<lparr>world = 0, trace = tr\<rparr> =
     Some (Inr (map extractFieldsFromCard cards),
       \<lparr>world = 0, trace = tr @ stableTrace 0 (if cards = [] then 5 else 6)
          @ [EvPage 0 (Screenshot n), EvExtractCards 0 (Some cards)]\<rparr>)"
proof -
  let ?E = "endlessEnv cards"
  have st: "scrollAndWaitForStability ?E 0 5 \<lparr>world = 0, trace = tr\<rparr> =
     Some (Inr (length cards),
           \<lparr>world = 0, trace = tr @ stableTrace 0 (if cards = [] then 5 else 6)\<rparr>)"
    using stable_run[of ?E 0 0 1000 cards tr] by (simp add: endlessEnv_def staticEnv_def)
  have q: "e_queryCards ?E 0 0 = (Inr cards, 0)"
    by (simp add: endlessEnv_def staticEnv_def)
  have shot: "pageDo ?E 0 (Screenshot n) \<lparr>world = 0, trace = tr'\<rparr> =
      (Inr (), \<lparr>world = 0, trace = tr' @ [EvPage 0 (Screenshot n)]\<rparr>)" for tr'
    by (simp add: pageDo_def prim_def endlessEnv_def staticEnv_def)
  show ?thesis
    unfolding processPage_def st
    by (simp add: shot retryLoop_valid[OF q assms])
qed

lemma endless_deciding:
  "deciding (endlessEnv cards) 0 n \<lparr>world = 0, trace = tr\<rparr> =
     (if 20 \<le> n then (Inr False, \<lparr>world = 0, trace = tr\<rparr>)
      else (Inr True, \<lparr>world = 0, trace = tr @
        [EvQueryNext 0, EvHasDisabled 0 7, EvPage 0 (ClickAndWaitForNavigation 7), EvDelay 3000]\<rparr>))"
  by (simp add: deciding_def MAX_PAGES_def queryNext_def hasDisabled_def pageDo_def prim_def
      delay_def endlessEnv_def staticEnv_def)

lemma endless_pageLoop:
  assumes "invalidEntries (map extractFieldsFromCard cards) = []"
  shows "k < 20 \<Longrightarrow> pageLoop (endlessEnv cards) 0 k acc \<lparr>world = 0, trace = tr\<rparr> =
     Some (Inr (acc @ concat (replicate (20 - k) (map extractFieldsFromCard cards))),
       \<lparr>world = 0, trace = tr @ concat (map (endlessPageTrace cards) [Suc k..<21])\<rparr>)"
proof (induction "19 - k" arbitrary: k acc tr)
  case 0
  then have k: "k = 19" by simp
  show ?case
    unfolding k
    by (subst pageLoop_unfold)
      (simp add: endless_processPage[OF assms] endless_deciding endlessPageTrace_def)
next
  case (Suc d)
  then have k: "Suc k < 20" "d = 19 - Suc k" by simp_all
  have u: "[Suc k..<21] = Suc k # [Suc (Suc k)..<21]"
    using k(1) by (simp add: upt_conv_Cons)
  have r: "20 - k = Suc (20 - Suc k)" using k(1) by simp
  show ?case
    by (subst pageLoop_unfold)
      (simp add: endless_processPage[OF assms] endless_deciding Suc(1)[OF k(2) k(1)] u r
        endlessPageTrace_def k(1) del: upt_Suc)
qed

text \<open>
  Claim C1. The page cap is 20. In every run of \<open>scrapeAllProducts\<close> that returns, with
  a result or with an error, at most 20 screenshots are taken (one per page processed),
  at most 60 extractions made, and the "Next Page" control is looked up and clicked at
  most 19 times. The decision about the next page tests the cap first: at the cap it
  stops without a call on the page, so without looking at the control. The 20th page is
  processed like any other, and when its processing returns a snapshot, the loop returns
  the records gathered so far followed by that snapshot, whatever the control is.
\<close>

theorem page_cap:
  "MAX_PAGES = 20
   \<and> (scrapeAllProducts env page url s = Some (r, s') \<longrightarrow>
        length (filter isScreenshot (emitted s s')) \<le> 20
        \<and> length (filter isExtract (emitted s s')) \<le> 60
        \<and> length (filter isQueryNext (emitted s s')) \<le> 19
        \<and> length (filter isClickNext (emitted s s')) \<le> 19)
   \<and> (MAX_PAGES \<le> pageCount \<longrightarrow> deciding env page pageCount s = (Inr False, s))
   \<and> (processPage env page 20 s = Some (Inr productData, s3) \<longrightarrow>
        pageLoop env page 19 allProducts s = Some (Inr (allProducts @ productData), s3))"
proof (intro conjI impI)
  show "MAX_PAGES = 20" by (simp add: MAX_PAGES_def)
next
  assume a: "scrapeAllProducts env page url s = Some (r, s')"
  from scrapeAllProducts_trace[OF a] obtain evs where
    e: "trace s' = trace s @ evs"
    "length (filter isScreenshot evs) \<le> MAX_PAGES"
    "length (filter isQueryNext evs) + 1 \<le> MAX_PAGES"
    "length (filter isClickNext evs) + 1 \<le> MAX_PAGES"
    "length (filter isExtract evs) \<le> 3 * length (filter isScreenshot evs)"
    by blast
  have em: "emitted s s' = evs" using e(1) by (rule emitted_append)
  show "length (filter isScreenshot (emitted s s')) \<le> 20"
    using e(2) by (simp add: em MAX_PAGES_def)
  show "length (filter isExtract (emitted s s')) \<le> 60"
    using e(2,5) by (simp add: em MAX_PAGES_def)
  show "length (filter isQueryNext (emitted s s')) \<le> 19"
    using e(3) by (simp add: em MAX_PAGES_def)
  show "length (filter isClickNext (emitted s s')) \<le> 19"
    using e(4) by (simp add: em MAX_PAGES_def)
next
  assume "MAX_PAGES \<le> pageCount"
  then show "deciding env page pageCount s = (Inr False, s)" by (rule deciding_cap)
next
  assume "processPage env page 20 s = Some (Inr productData, s3)"
  then show "pageLoop env page 19 allProducts s = Some (Inr (allProducts @ productData), s3)"
    by (subst pageLoop_unfold) (simp add: deciding_cap MAX_PAGES_def)
qed

theorem page_cap_witness:
  "scrapeAllProducts (endlessEnv [mkCard ''Stud'' ''2'' ''98'']) 0 (js ''https://shop.example/lumber'') initial
     = Some (Inr (replicate 20 \<lparr>productName = js ''Stud'', price = js ''$2.98''\<rparr>),
         \<lparr>world = 0, trace = [EvPage 0 (Goto (js ''https://shop.example/lumber'')), EvDelay 5000]
            @ concat (map (endlessPageTrace [mkCard ''Stud'' ''2'' ''98'']) [1..<21])\<rparr>)
   \<and> length (filter isScreenshot (emitted initial
         \<lparr>world = 0, trace = [EvPage 0 (Goto (js ''https://shop.example/lumber'')), EvDelay 5000]
            @ concat (map (endlessPageTrace [mkCard ''Stud'' ''2'' ''98'']) [1..<21])\<rparr>)) \<le> 20
   \<and> length (filter isQueryNext (emitted initial
         \<lparr>world = 0, trace = [EvPage 0 (Goto (js ''https://shop.example/lumber'')), EvDelay 5000]
            @ concat (map (endlessPageTrace [mkCard ''Stud'' ''2'' ''98'']) [1..<21])\<rparr>)) \<le> 19
   \<and> e_queryNext (endlessEnv [mkCard ''Stud'' ''2'' ''98'']) 0 0 = (Inr (Some 7), 0)
   \<and> e_hasDisabled (endlessEnv [mkCard ''Stud'' ''2'' ''98'']) 0 7 0 = (Inr False, 0)
   \<and> deciding (endlessEnv [mkCard ''Stud'' ''2'' ''98'']) 0 20 initial = (Inr False, initial)
   \<and> pageLoop (endlessEnv [mkCard ''Stud'' ''2'' ''98'']) 0 19
        [\<lparr>productName = js ''Joist'', price = js ''$7.05''\<rparr>] initial
     = Some (Inr [\<lparr>productName = js ''Joist'', price = js ''$7.05''\<rparr>,
                  \<lparr>productName = js ''Stud'', price = js ''$2.98''\<rparr>],
         \<lparr>world = 0, trace = stableTrace 0 6
            @ [EvPage 0 (Screenshot 20), EvExtractCards 0 (Some [mkCard ''Stud'' ''2'' ''98''])]\<rparr>)"
proof -
  let ?c = "mkCard ''Stud'' ''2'' ''98''"
  let ?E = "endlessEnv [?c]"
  let ?url = "js ''https://shop.example/lumber''"
  let ?S = "\<lparr>world = 0, trace = [EvPage 0 (Goto ?url), EvDelay 5000]
            @ concat (map (endlessPageTrace [?c]) [1..<21])\<rparr>"
  have v: "invalidEntries (map extractFieldsFromCard [?c]) = []"
    by (simp add: extract_Stud_2_98 invalidEntries_def isInvalidEntry_def js_def)
  have run: "scrapeAllProducts ?E 0 ?url initial =
      Some (Inr (replicate 20 \<lparr>productName = js ''Stud'', price = js ''$2.98''\<rparr>), ?S)"
  proof -
    have "(0::nat) < 20" by simp
    from endless_pageLoop[OF v this, of "[]" "[EvPage 0 (Goto ?url), EvDelay 5000]"]
    show ?thesis
      by (simp add: scrapeAllProducts_def pageDo_def prim_def delay_def initial_def
          endlessEnv_def staticEnv_def extract_Stud_2_98 concat_replicate_single del: upt_Suc)
  qed
  have pp: "processPage ?E 0 20 initial = Some (Inr [\<lparr>productName = js ''Stud'', price = js ''$2.98''\<rparr>],
      \<lparr>world = 0, trace = stableTrace 0 6 @ [EvPage 0 (Screenshot 20), EvExtractCards 0 (Some [?c])]\<rparr>)"
    using endless_processPage[OF v, of 20 "[]"] by (simp add: initial_def extract_Stud_2_98)
  have q: "e_queryNext ?E 0 0 = (Inr (Some 7), 0)" "e_hasDisabled ?E 0 7 0 = (Inr False, 0)"
    by (simp_all add: endlessEnv_def staticEnv_def)
  from page_cap[where env = "?E" and page = 0 and url = "?url" and s = initial
      and r = "Inr (replicate 20 \<lparr>productName = js ''Stud'', price = js ''$2.98''\<rparr>)"
      and s' = "?S" and pageCount = 20 and productData = "[\<lparr>productName = js ''Stud'', price = js ''$2.98''\<rparr>]"
      and ?s3.0 = "\<lparr>world = 0, trace = stableTrace 0 6 @ [EvPage 0 (Screenshot 20), EvExtractCards 0 (Some [?c])]\<rparr>"
      and allProducts = "[\<lparr>productName = js ''Joist'', price = js ''$7.05''\<rparr>]"]
    run pp q
  show ?thesis by (simp add: MAX_PAGES_def)
qed

subsection \<open>Snapshots and the result\<close>

lemma processPage_emitted:
  assumes "processPage env page n s = Some (Inr pd, s')"
  shows "extractions (emitted s s') \<noteq> []"
    and "pd = map extractFieldsFromCard (last (extractions (emitted s s')))"
proof -
  from processPage_trace[OF assms] obtain A R where
    A: "list_all stabilityEvent A" and
    t: "trace s' = trace s @ A @ EvPage page (Screenshot n) # R" and
    e: "extractions R \<noteq> []" "pd = map extractFieldsFromCard (last (extractions R))"
    by auto
  have "emitted s s' = A @ EvPage page (Screenshot n) # R"
    using t by (rule emitted_append)
  moreover have "extractions (A @ EvPage page (Screenshot n) # R) = extractions R"
    using stability_events(1)[OF A] by (simp add: extractions_append extractions_def map_filter_def)
  ultimately show "extractions (emitted s s') \<noteq> []"
    and "pd = map extractFieldsFromCard (last (extractions (emitted s s')))"
    using e by simp_all
qed

lemma retryLoop_previous:
  "\<not> validDataFound \<and> attempts < 3 \<Longrightarrow>
   retryLoop env page validDataFound attempts previous s =
   retryLoop env page validDataFound attempts [] s"
  by (subst retryLoop.simps, subst (2) retryLoop.simps) simp

lemma pageLoop_emitted:
  assumes "pageLoop env page k acc s = Some (Inr res, s')"
  shows "res = acc @ concat (map (map extractFieldsFromCard) (pageCards (emitted s s')))"
proof -
  from pageLoop_trace[OF assms] obtain evs where
    "trace s' = trace s @ evs"
    "res = acc @ concat (map (map extractFieldsFromCard) (pageCards evs))"
    by blast
  then show ?thesis by (simp add: emitted_append)
qed

lemma processPage_static:
  assumes "e_page E p (ScrollBy 1000) w = (Inr (), w)" "e_scrollHeight E p w = (Inr h, w)"
    "e_delay E 500 w = w" "e_delay E 2000 w = w" "e_queryCards E p w = (Inr cards, w)"
    and shot: "e_page E p (Screenshot n) w = (Inr (), w)"
    and valid: "invalidEntries (map extractFieldsFromCard cards) = []"
  shows "processPage E p n \<lparr>world = w, trace = tr\<rparr> =
     Some (Inr (map extractFieldsFromCard cards),
       \<lparr>world = w, trace = tr @ stableTrace p (if cards = [] then 5 else 6)
          @ [EvPage p (Screenshot n), EvExtractCards p (Some cards)]\<rparr>)"
proof -
  have sh: "pageDo E p (Screenshot n) \<lparr>world = w, trace = tr'\<rparr> =
      (Inr (), \<lparr>world = w, trace = tr' @ [EvPage p (Screenshot n)]\<rparr>)" for tr'
    using shot by (simp add: pageDo_def prim_def)
  show ?thesis
    unfolding processPage_def stable_run[OF assms(1-5)]
    by (simp add: sh retryLoop_valid[OF assms(5) valid])
qed

lemma extract_Joist_7_05:
  "extractFieldsFromCard (mkCard ''Joist'' ''$7'' ''05'') = \<lparr>productName = js ''Joist'', price = js ''$7.05''\<rparr>"
  by (simp add: mkCard_def extractFieldsFromCard_def getText_def trim_def isWhiteSpace_def js_def
      stripNonDigits_def isDigit_def orElse_def)

lemma extract_Plank_1234_56:
  "extractFieldsFromCard (mkCard ''Plank'' ''$1,234'' ''56'') = \<lparr>productName = js ''Plank'', price = js ''$1234.56''\<rparr>"
  by (simp add: mkCard_def extractFieldsFromCard_def getText_def trim_def isWhiteSpace_def js_def
      stripNonDigits_def isDigit_def orElse_def)

lemma stableTrace_pages: "pageCards (stableTrace p n @ evs) = pageCards evs"
  using pageCards_no_shot[OF stability_events(3)[OF list_all_stableTrace]] .

lemma stableTrace_takeWhile:
  "takeWhile (\<lambda>e. \<not> isScreenshot e) (stableTrace p n @ evs) =
   stableTrace p n @ takeWhile (\<lambda>e. \<not> isScreenshot e) evs"
  using takeWhile_no_shot[OF stability_events(3)[OF list_all_stableTrace]] .

lemma stableTrace_extractions: "extractions (stableTrace p n @ evs) = extractions evs"
  using stability_events(1)[OF list_all_stableTrace] by (simp add: extractions_append)

lemma extractions_Cons:
  "extractions (ev # evs) =
     (case extraction ev of None \<Rightarrow> extractions evs | Some cs \<Rightarrow> cs # extractions evs)"
  by (simp add: extractions_def map_filter_def split: option.splits)

lemma extractions_stableTrace: "extractions (stableTrace p n) = []"
  using stability_events(1)[OF list_all_stableTrace] .

text \<open>
  Claim C10. An attempt of the retry loop does not read the snapshot of the attempt
  before it: the loop's outcome is the same whatever the working snapshot is on entry.
  When the processing of a page returns a snapshot, that snapshot is the record list of
  the last extraction made on the page, with as many records as that extraction found
  cards, and the page loop appends it to \<open>allProducts\<close> once before the decision about
  the next page. So the result of the page loop has as many records as \<open>allProducts\<close>
  had, plus the numbers of cards of the pages' final extractions.
\<close>

theorem retry_never_duplicates:
  "(\<not> validDataFound \<and> attempts < 3 \<longrightarrow>
      retryLoop env page validDataFound attempts previous s =
      retryLoop env page validDataFound attempts [] s)
   \<and> (processPage env page n s = Some (Inr productData, s') \<longrightarrow>
        extractions (emitted s s') \<noteq> []
        \<and> productData = map extractFieldsFromCard (last (extractions (emitted s s')))
        \<and> length productData = length (last (extractions (emitted s s'))))
   \<and> (processPage env page (pageCount + 1) s = Some (Inr productData, s') \<longrightarrow>
        pageLoop env page pageCount allProducts s =
          (case deciding env page (pageCount + 1) s' of
             (Inl e, s4) \<Rightarrow> Some (Inl e, s4)
           | (Inr goOn, s4) \<Rightarrow>
               if goOn then pageLoop env page (pageCount + 1) (allProducts @ productData) s4
               else Some (Inr (allProducts @ productData), s4)))
   \<and> (pageLoop env page pageCount allProducts s = Some (Inr result, s') \<longrightarrow>
        length result = length allProducts + sum_list (map length (pageCards (emitted s s'))))"
proof (intro conjI impI)
  assume "\<not> validDataFound \<and> attempts < 3"
  then show "retryLoop env page validDataFound attempts previous s =
      retryLoop env page validDataFound attempts [] s"
    by (rule retryLoop_previous)
next
  assume a: "processPage env page n s = Some (Inr productData, s')"
  show "extractions (emitted s s') \<noteq> []"
    using processPage_emitted(1)[OF a] .
  show p: "productData = map extractFieldsFromCard (last (extractions (emitted s s')))"
    using processPage_emitted(2)[OF a] .
  show "length productData = length (last (extractions (emitted s s')))"
    by (subst p) simp
next
  assume "processPage env page (pageCount + 1) s = Some (Inr productData, s')"
  then show "pageLoop env page pageCount allProducts s =
          (case deciding env page (pageCount + 1) s' of
             (Inl e, s4) \<Rightarrow> Some (Inl e, s4)
           | (Inr goOn, s4) \<Rightarrow>
               if goOn then pageLoop env page (pageCount + 1) (allProducts @ productData) s4
               else Some (Inr (allProducts @ productData), s4))"
    by (subst pageLoop_unfold) simp
next
  assume "pageLoop env page pageCount allProducts s = Some (Inr result, s')"
  from pageLoop_emitted[OF this]
  show "length result = length allProducts + sum_list (map length (pageCards (emitted s s')))"
    by (simp add: length_concat comp_def)
qed

theorem retry_never_duplicates_witness:
  "processPage
      (healingEnv [mkCard ''Stud'' ''0'' ''00'', mkCard ''Joist'' ''$7'' ''05'']
                  [mkCard ''Stud'' ''2'' ''98'', mkCard ''Joist'' ''$7'' ''05''])
      0 1 initial
     = Some (Inr [\<lparr>productName = js ''Stud'', price = js ''$2.98''\<rparr>,
                  \<lparr>productName = js ''Joist'', price = js ''$7.05''\<rparr>],
         \<lparr>world = 1, trace =
            stableTrace 0 6
            @ [EvPage 0 (Screenshot 1),
               EvExtractCards 0 (Some [mkCard ''Stud'' ''0'' ''00'', mkCard ''Joist'' ''$7'' ''05'']),
               EvDelay 3000]
            @ stableTrace 0 6
            @ [EvExtractCards 0 (Some [mkCard ''Stud'' ''2'' ''98'', mkCard ''Joist'' ''$7'' ''05''])]\<rparr>)
   \<and> extractions (emitted initial
         \<lparr>world = 1, trace =
            stableTrace 0 6
            @ [EvPage 0 (Screenshot 1),
               EvExtractCards 0 (Some [mkCard ''Stud'' ''0'' ''00'', mkCard ''Joist'' ''$7'' ''05'']),
               EvDelay 3000]
            @ stableTrace 0 6
            @ [EvExtractCards 0 (Some [mkCard ''Stud'' ''2'' ''98'', mkCard ''Joist'' ''$7'' ''05''])]\<rparr>)
     = [[mkCard ''Stud'' ''0'' ''00'', mkCard ''Joist'' ''$7'' ''05''],
        [mkCard ''Stud'' ''2'' ''98'', mkCard ''Joist'' ''$7'' ''05'']]
   \<and> length [\<lparr>productName = js ''Stud'', price = js ''$2.98''\<rparr>,
               \<lparr>productName = js ''Joist'', price = js ''$7.05''\<rparr>]
     = length (last (extractions (emitted initial
         \<lparr>world = 1, trace =
            stableTrace 0 6
            @ [EvPage 0 (Screenshot 1),
               EvExtractCards 0 (Some [mkCard ''Stud'' ''0'' ''00'', mkCard ''Joist'' ''$7'' ''05'']),
               EvDelay 3000]
            @ stableTrace 0 6
            @ [EvExtractCards 0 (Some [mkCard ''Stud'' ''2'' ''98'', mkCard ''Joist'' ''$7'' ''05''])]\<rparr>)))
   \<and> pageLoop
      (healingEnv [mkCard ''Stud'' ''0'' ''00'', mkCard ''Joist'' ''$7'' ''05'']
                  [mkCard ''Stud'' ''2'' ''98'', mkCard ''Joist'' ''$7'' ''05''])
      0 0 [] initial
     = Some (Inr [\<lparr>productName = js ''Stud'', price = js ''$2.98''\<rparr>,
                  \<lparr>productName = js ''Joist'', price = js ''$7.05''\<rparr>],
         \<lparr>world = 1, trace =
            stableTrace 0 6
            @ [EvPage 0 (Screenshot 1),
               EvExtractCards 0 (Some [mkCard ''Stud'' ''0'' ''00'', mkCard ''Joist'' ''$7'' ''05'']),
               EvDelay 3000]
            @ stableTrace 0 6
            @ [EvExtractCards 0 (Some [mkCard ''Stud'' ''2'' ''98'', mkCard ''Joist'' ''$7'' ''05'']),
               EvQueryNext 0]\<rparr>)"
proof -
  let ?z = "mkCard ''Stud'' ''0'' ''00''"
  let ?a = "mkCard ''Stud'' ''2'' ''98''"
  let ?b = "mkCard ''Joist'' ''$7'' ''05''"
  let ?E = "healingEnv [?z, ?b] [?a, ?b]"
  let ?ra = "\<lparr>productName = js ''Stud'', price = js ''$2.98''\<rparr>"
  let ?rb = "\<lparr>productName = js ''Joist'', price = js ''$7.05''\<rparr>"
  let ?T = "stableTrace 0 6
            @ [EvPage 0 (Screenshot 1), EvExtractCards 0 (Some [?z, ?b]), EvDelay 3000]
            @ stableTrace 0 6
            @ [EvExtractCards 0 (Some [?a, ?b])]"
  have bad: "invalidEntries (map extractFieldsFromCard [?z, ?b]) \<noteq> []"
    by (simp add: extract_Stud_0_00 invalidEntries_def isInvalidEntry_def)
  have good: "invalidEntries (map extractFieldsFromCard [?a, ?b]) = []"
    by (simp add: extract_Stud_2_98 extract_Joist_7_05 invalidEntries_def isInvalidEntry_def js_def)
  have st0: "scrollAndWaitForStability ?E 0 5 \<lparr>world = 0, trace = tr\<rparr> =
      Some (Inr 2, \<lparr>world = 0, trace = tr @ stableTrace 0 6\<rparr>)" for tr
    using stable_run[of ?E 0 0 1000 "[?z, ?b]" tr] by (simp add: healingEnv_def staticEnv_def)
  have st1: "scrollAndWaitForStability ?E 0 5 \<lparr>world = Suc 0, trace = tr\<rparr> =
      Some (Inr 2, \<lparr>world = Suc 0, trace = tr @ stableTrace 0 6\<rparr>)" for tr
    using stable_run[of ?E 0 "Suc 0" 1000 "[?a, ?b]" tr] by (simp add: healingEnv_def staticEnv_def)
  have shot: "pageDo ?E 0 (Screenshot n) \<lparr>world = 0, trace = tr\<rparr> =
      (Inr (), \<lparr>world = 0, trace = tr @ [EvPage 0 (Screenshot n)]\<rparr>)" for tr n
    by (simp add: pageDo_def prim_def healingEnv_def staticEnv_def)
  have x0: "extractCards ?E 0 \<lparr>world = 0, trace = tr\<rparr> =
      (Inr (map extractFieldsFromCard [?z, ?b]),
       \<lparr>world = 0, trace = tr @ [EvExtractCards 0 (Some [?z, ?b])]\<rparr>)" for tr
    by (rule extract_run) (simp add: healingEnv_def staticEnv_def)
  have wait: "delay ?E 3000 \<lparr>world = 0, trace = tr\<rparr> =
      \<lparr>world = Suc 0, trace = tr @ [EvDelay 3000]\<rparr>" for tr
    by (simp add: delay_def healingEnv_def staticEnv_def)
  have q1: "e_queryCards ?E 0 (Suc 0) = (Inr [?a, ?b], Suc 0)"
    by (simp add: healingEnv_def staticEnv_def)
  have retry: "retryLoop ?E 0 False 0 [] \<lparr>world = 0, trace = tr\<rparr> =
      Some (Inr (True, 2, map extractFieldsFromCard [?a, ?b]),
        \<lparr>world = Suc 0, trace = tr @ [EvExtractCards 0 (Some [?z, ?b]), EvDelay 3000]
           @ stableTrace 0 6 @ [EvExtractCards 0 (Some [?a, ?b])]\<rparr>)" for tr
  proof -
    let ?u = "tr @ [EvExtractCards 0 (Some [?z, ?b]), EvDelay 3000] @ stableTrace 0 6"
    have "retryLoop ?E 0 False 0 [] \<lparr>world = 0, trace = tr\<rparr> =
        retryLoop ?E 0 False 1 (map extractFieldsFromCard [?z, ?b]) \<lparr>world = Suc 0, trace = ?u\<rparr>"
      using bad by (subst retryLoop_step[OF x0]) (simp_all add: wait st1)
    also have "\<dots> = retryLoop ?E 0 False 1 [] \<lparr>world = Suc 0, trace = ?u\<rparr>"
      by (rule retryLoop_previous) simp
    also have "\<dots> = Some (Inr (True, 1 + 1, map extractFieldsFromCard [?a, ?b]),
        \<lparr>world = Suc 0, trace = ?u @ [EvExtractCards 0 (Some [?a, ?b])]\<rparr>)"
      using good by (subst retryLoop_step[OF extract_run[OF q1]]) simp_all
    finally show ?thesis by simp
  qed
  have pp: "processPage ?E 0 1 initial =
      Some (Inr [?ra, ?rb], \<lparr>world = 1, trace = ?T\<rparr>)"
    unfolding processPage_def initial_def st0
    by (simp add: shot retry extract_Stud_2_98 extract_Joist_7_05)
  have ex: "extractions (emitted initial \<lparr>world = 1, trace = ?T\<rparr>) = [[?z, ?b], [?a, ?b]]"
    by (simp add: emitted_def initial_def stableTrace_extractions extractions_stableTrace
        extractions_Cons extractions_simps(1))
  have dec: "deciding ?E 0 (0 + 1) \<lparr>world = 1, trace = ?T\<rparr> =
      (Inr False, \<lparr>world = 1, trace = ?T @ [EvQueryNext 0]\<rparr>)"
    by (simp add: deciding_def MAX_PAGES_def queryNext_def prim_def healingEnv_def staticEnv_def)
  note inst = retry_never_duplicates[where env = "?E" and page = 0 and n = 1 and s = initial
      and productData = "[?ra, ?rb]" and s' = "\<lparr>world = 1, trace = ?T\<rparr>"
      and pageCount = 0 and allProducts = "[]"]
  have len: "length [?ra, ?rb] = length (last (extractions (emitted initial \<lparr>world = 1, trace = ?T\<rparr>)))"
    using inst[THEN conjunct2, THEN conjunct1, THEN mp, OF pp] by blast
  have pp': "processPage ?E 0 (0 + 1) initial = Some (Inr [?ra, ?rb], \<lparr>world = 1, trace = ?T\<rparr>)"
    using pp by simp
  have loop: "pageLoop ?E 0 0 [] initial =
      Some (Inr [?ra, ?rb], \<lparr>world = 1, trace = ?T @ [EvQueryNext 0]\<rparr>)"
    using inst[THEN conjunct2, THEN conjunct2, THEN conjunct1, THEN mp, OF pp']
    unfolding dec by simp
  from pp ex len loop show ?thesis by simp
qed

text \<open>
  Claim C8. When \<open>scrapeAllProducts\<close> returns a result, the result is the concatenation,
  in the order of the pages in the trace, of the pages' final snapshots, and each snapshot
  is the list of the records of the cards the final extraction of the page found, in the
  order in which the query returned them (document order). The page loop only appends to
  \<open>allProducts\<close>. An extraction maps the extractor over the cards of the query: as many
  records as cards, the record at each position from the card at that position.
\<close>

theorem result_in_page_then_dom_order:
  "(scrapeAllProducts env page url s = Some (Inr result, s') \<longrightarrow>
      result = concat (map (map extractFieldsFromCard) (pageCards (emitted s s')))
      \<and> length (pageCards (emitted s s')) = length (filter isScreenshot (emitted s s')))
   \<and> (pageLoop env page pageCount allProducts s = Some (Inr result, s') \<longrightarrow>
        result = allProducts @ concat (map (map extractFieldsFromCard) (pageCards (emitted s s'))))
   \<and> (extractCards env page s = (Inr productData, s1) \<longrightarrow>
        (\<exists>cards. e_queryCards env page (world s) = (Inr cards, world s1)
           \<and> trace s1 = trace s @ [EvExtractCards page (Some cards)]
           \<and> productData = map extractFieldsFromCard cards
           \<and> length productData = length cards
           \<and> (\<forall>i. i < length cards \<longrightarrow> productData ! i = extractFieldsFromCard (cards ! i))))"
proof (intro conjI impI)
  assume a: "scrapeAllProducts env page url s = Some (Inr result, s')"
  from scrapeAllProducts_trace[OF a] obtain evs where
    e: "trace s' = trace s @ evs"
    "result = concat (map (map extractFieldsFromCard) (pageCards evs))"
    "length (pageCards evs) = length (filter isScreenshot evs)"
    by blast
  have em: "emitted s s' = evs" using e(1) by (rule emitted_append)
  show "result = concat (map (map extractFieldsFromCard) (pageCards (emitted s s')))"
    using e(2) em by simp
  show "length (pageCards (emitted s s')) = length (filter isScreenshot (emitted s s'))"
    using e(3) em by simp
next
  assume "pageLoop env page pageCount allProducts s = Some (Inr result, s')"
  then show "result = allProducts @ concat (map (map extractFieldsFromCard) (pageCards (emitted s s')))"
    by (rule pageLoop_emitted)
next
  assume "extractCards env page s = (Inr productData, s1)"
  then show "\<exists>cards. e_queryCards env page (world s) = (Inr cards, world s1)
           \<and> trace s1 = trace s @ [EvExtractCards page (Some cards)]
           \<and> productData = map extractFieldsFromCard cards
           \<and> length productData = length cards
           \<and> (\<forall>i. i < length cards \<longrightarrow> productData ! i = extractFieldsFromCard (cards ! i))"
    by (auto simp: extractCards_def split: prod.splits sum.splits)
qed

theorem result_in_page_then_dom_order_witness:
  "scrapeAllProducts
      (twoPageEnv [mkCard ''Stud'' ''2'' ''98'', mkCard ''Joist'' ''$7'' ''05'']
                  [mkCard ''Plank'' ''$1,234'' ''56''])
      0 (js ''https://shop.example/lumber'') initial
     = Some (Inr [\<lparr>productName = js ''Stud'', price = js ''$2.98''\<rparr>,
                  \<lparr>productName = js ''Joist'', price = js ''$7.05''\<rparr>,
                  \<lparr>productName = js ''Plank'', price = js ''$1234.56''\<rparr>],
         \<lparr>world = 1, trace =
            [EvPage 0 (Goto (js ''https://shop.example/lumber'')), EvDelay 5000]
            @ stableTrace 0 6
            @ [EvPage 0 (Screenshot 1),
               EvExtractCards 0 (Some [mkCard ''Stud'' ''2'' ''98'', mkCard ''Joist'' ''$7'' ''05'']),
               EvQueryNext 0, EvHasDisabled 0 7, EvPage 0 (ClickAndWaitForNavigation 7), EvDelay 3000]
            @ stableTrace 0 6
            @ [EvPage 0 (Screenshot 2),
               EvExtractCards 0 (Some [mkCard ''Plank'' ''$1,234'' ''56'']),
               EvQueryNext 0]\<rparr>)
   \<and> [\<lparr>productName = js ''Stud'', price = js ''$2.98''\<rparr>,
       \<lparr>productName = js ''Joist'', price = js ''$7.05''\<rparr>,
       \<lparr>productName = js ''Plank'', price = js ''$1234.56''\<rparr>]
     = concat (map (map extractFieldsFromCard) (pageCards (emitted initial
         \<lparr>world = 1, trace =
            [EvPage 0 (Goto (js ''https://shop.example/lumber'')), EvDelay 5000]
            @ stableTrace 0 6
            @ [EvPage 0 (Screenshot 1),
               EvExtractCards 0 (Some [mkCard ''Stud'' ''2'' ''98'', mkCard ''Joist'' ''$7'' ''05'']),
               EvQueryNext 0, EvHasDisabled 0 7, EvPage 0 (ClickAndWaitForNavigation 7), EvDelay 3000]
            @ stableTrace 0 6
            @ [EvPage 0 (Screenshot 2),
               EvExtractCards 0 (Some [mkCard ''Plank'' ''$1,234'' ''56'']),
               EvQueryNext 0]\<rparr>)))
   \<and> pageCards (emitted initial
         \<lparr>world = 1, trace =
            [EvPage 0 (Goto (js ''https://shop.example/lumber'')), EvDelay 5000]
            @ stableTrace 0 6
            @ [EvPage 0 (Screenshot 1),
               EvExtractCards 0 (Some [mkCard ''Stud'' ''2'' ''98'', mkCard ''Joist'' ''$7'' ''05'']),
               EvQueryNext 0, EvHasDisabled 0 7, EvPage 0 (ClickAndWaitForNavigation 7), EvDelay 3000]
            @ stableTrace 0 6
            @ [EvPage 0 (Screenshot 2),
               EvExtractCards 0 (Some [mkCard ''Plank'' ''$1,234'' ''56'']),
               EvQueryNext 0]\<rparr>)
     = [[mkCard ''Stud'' ''2'' ''98'', mkCard ''Joist'' ''$7'' ''05''], [mkCard ''Plank'' ''$1,234'' ''56'']]
   \<and> extractCards
        (twoPageEnv [mkCard ''Stud'' ''2'' ''98'', mkCard ''Joist'' ''$7'' ''05'']
                    [mkCard ''Plank'' ''$1,234'' ''56''])
        0 initial
     = (Inr [\<lparr>productName = js ''Stud'', price = js ''$2.98''\<rparr>,
             \<lparr>productName = js ''Joist'', price = js ''$7.05''\<rparr>],
        \<lparr>world = 0, trace =
           [EvExtractCards 0 (Some [mkCard ''Stud'' ''2'' ''98'', mkCard ''Joist'' ''$7'' ''05''])]\<rparr>)"
proof -
  let ?a = "mkCard ''Stud'' ''2'' ''98''"
  let ?b = "mkCard ''Joist'' ''$7'' ''05''"
  let ?c = "mkCard ''Plank'' ''$1,234'' ''56''"
  let ?E = "twoPageEnv [?a, ?b] [?c]"
  let ?url = "js ''https://shop.example/lumber''"
  let ?T = "[EvPage 0 (Goto ?url), EvDelay 5000]
            @ stableTrace 0 6
            @ [EvPage 0 (Screenshot 1), EvExtractCards 0 (Some [?a, ?b]),
               EvQueryNext 0, EvHasDisabled 0 7, EvPage 0 (ClickAndWaitForNavigation 7), EvDelay 3000]
            @ stableTrace 0 6
            @ [EvPage 0 (Screenshot 2), EvExtractCards 0 (Some [?c]), EvQueryNext 0]"
  have v1: "invalidEntries (map extractFieldsFromCard [?a, ?b]) = []"
    by (simp add: extract_Stud_2_98 extract_Joist_7_05 invalidEntries_def isInvalidEntry_def js_def)
  have v2: "invalidEntries (map extractFieldsFromCard [?c]) = []"
    by (simp add: extract_Plank_1234_56 invalidEntries_def isInvalidEntry_def js_def)
  have p1: "processPage ?E 0 n \<lparr>world = 0, trace = tr\<rparr> =
      Some (Inr (map extractFieldsFromCard [?a, ?b]),
        \<lparr>world = 0, trace = tr @ stableTrace 0 6
           @ [EvPage 0 (Screenshot n), EvExtractCards 0 (Some [?a, ?b])]\<rparr>)" for tr n
    using processPage_static[of ?E 0 0 1000 "[?a, ?b]" n tr] v1
    by (simp add: twoPageEnv_def staticEnv_def)
  have p2: "processPage ?E 0 n \<lparr>world = Suc 0, trace = tr\<rparr> =
      Some (Inr (map extractFieldsFromCard [?c]),
        \<lparr>world = Suc 0, trace = tr @ stableTrace 0 6
           @ [EvPage 0 (Screenshot n), EvExtractCards 0 (Some [?c])]\<rparr>)" for tr n
    using processPage_static[of ?E 0 "Suc 0" 1000 "[?c]" n tr] v2
    by (simp add: twoPageEnv_def staticEnv_def)
  have d1: "n < 20 \<Longrightarrow> deciding ?E 0 n \<lparr>world = 0, trace = tr\<rparr> =
      (Inr True, \<lparr>world = Suc 0, trace = tr @
        [EvQueryNext 0, EvHasDisabled 0 7, EvPage 0 (ClickAndWaitForNavigation 7), EvDelay 3000]\<rparr>)" for tr n
    by (simp add: deciding_def MAX_PAGES_def queryNext_def hasDisabled_def pageDo_def prim_def
        delay_def twoPageEnv_def staticEnv_def)
  have d2: "n < 20 \<Longrightarrow> deciding ?E 0 n \<lparr>world = Suc 0, trace = tr\<rparr> =
      (Inr False, \<lparr>world = Suc 0, trace = tr @ [EvQueryNext 0]\<rparr>)" for tr n
    by (simp add: deciding_def MAX_PAGES_def queryNext_def prim_def twoPageEnv_def staticEnv_def)
  have loop: "pageLoop ?E 0 0 [] \<lparr>world = 0, trace = [EvPage 0 (Goto ?url), EvDelay 5000]\<rparr> =
      Some (Inr (map extractFieldsFromCard [?a, ?b] @ map extractFieldsFromCard [?c]),
            \<lparr>world = 1, trace = ?T\<rparr>)"
  proof -
    have "pageLoop ?E 0 0 [] \<lparr>world = 0, trace = [EvPage 0 (Goto ?url), EvDelay 5000]\<rparr> =
      pageLoop ?E 0 1 (map extractFieldsFromCard [?a, ?b])
        \<lparr>world = 1, trace = [EvPage 0 (Goto ?url), EvDelay 5000] @ stableTrace 0 6
           @ [EvPage 0 (Screenshot 1), EvExtractCards 0 (Some [?a, ?b]),
              EvQueryNext 0, EvHasDisabled 0 7, EvPage 0 (ClickAndWaitForNavigation 7), EvDelay 3000]\<rparr>"
      by (subst pageLoop_unfold) (simp add: p1 d1)
    also have "\<dots> = Some (Inr (map extractFieldsFromCard [?a, ?b] @ map extractFieldsFromCard [?c]),
            \<lparr>world = 1, trace = ?T\<rparr>)"
      by (subst pageLoop_unfold) (simp add: p2 d2)
    finally show ?thesis .
  qed
  have run: "scrapeAllProducts ?E 0 ?url initial =
      Some (Inr [\<lparr>productName = js ''Stud'', price = js ''$2.98''\<rparr>,
                 \<lparr>productName = js ''Joist'', price = js ''$7.05''\<rparr>,
                 \<lparr>productName = js ''Plank'', price = js ''$1234.56''\<rparr>],
            \<lparr>world = 1, trace = ?T\<rparr>)"
    using loop
    by (simp add: scrapeAllProducts_def pageDo_def prim_def delay_def initial_def
        twoPageEnv_def staticEnv_def extract_Stud_2_98 extract_Joist_7_05 extract_Plank_1234_56)
  have pc: "pageCards (emitted initial \<lparr>world = 1, trace = ?T\<rparr>) = [[?a, ?b], [?c]]"
    by (simp add: emitted_def initial_def stableTrace_pages stableTrace_takeWhile
        stableTrace_extractions extractions_stableTrace lastExtraction_def extractions_Cons
        extractions_simps(1))
  have x: "extractCards ?E 0 initial =
      (Inr [\<lparr>productName = js ''Stud'', price = js ''$2.98''\<rparr>,
            \<lparr>productName = js ''Joist'', price = js ''$7.05''\<rparr>],
       \<lparr>world = 0, trace = [EvExtractCards 0 (Some [?a, ?b])]\<rparr>)"
    using extract_run[of ?E 0 0 "[?a, ?b]" 0 "[]"]
    by (simp add: initial_def twoPageEnv_def staticEnv_def extract_Stud_2_98 extract_Joist_7_05)
  note inst = result_in_page_then_dom_order[where env = "?E" and page = 0 and url = "?url"
      and s = initial and s' = "\<lparr>world = 1, trace = ?T\<rparr>"
      and result = "[\<lparr>productName = js ''Stud'', price = js ''$2.98''\<rparr>,
                 \<lparr>productName = js ''Joist'', price = js ''$7.05''\<rparr>,
                 \<lparr>productName = js ''Plank'', price = js ''$1234.56''\<rparr>]"]
  have ord: "[\<lparr>productName = js ''Stud'', price = js ''$2.98''\<rparr>,
              \<lparr>productName = js ''Joist'', price = js ''$7.05''\<rparr>,
              \<lparr>productName = js ''Plank'', price = js ''$1234.56''\<rparr>]
      = concat (map (map extractFieldsFromCard)
          (pageCards (emitted initial \<lparr>world = 1, trace = ?T\<rparr>)))"
    using inst[THEN conjunct1, THEN mp, OF run] by (rule conjunct1)
  from run ord pc x show ?thesis by (intro conjI)
qed

subsection \<open>Termination of the Stability Detector\<close>






lemma stabilityLoop_unfold:
  "stabilityLoop env page maxRepeats stableCountRepeats lastCount s =
     (if stableCountRepeats < maxRepeats then
        (case readCount env page s of
           None \<Rightarrow> None
         | Some (Inl e, s2) \<Rightarrow> Some (Inl e, s2)
         | Some (Inr currentCount, s2) \<Rightarrow>
             if currentCount = lastCount
             then stabilityLoop env page maxRepeats (stableCountRepeats + 1) lastCount s2
             else stabilityLoop env page maxRepeats 0 currentCount s2)
      else Some (Inr lastCount, s))"
  by (subst stabilityLoop.simps)
    (simp add: readCount_def split: option.splits prod.splits sum.splits)



lemma stableTrace_snoc: "stableTrace p n @ stableTrace p (Suc 0) = stableTrace p (Suc n)"
  by (induction n) (simp_all add: stableTrace_Suc stableTrace_0)






subsection \<open>The counters of the Stability Detector\<close>

lemma stabilityLoop_step:
  "readCount env page s = Some (Inr currentCount, s1) \<Longrightarrow> stableCountRepeats < maxRepeats \<Longrightarrow>
   stabilityLoop env page maxRepeats stableCountRepeats lastCount s =
     (if currentCount = lastCount
      then stabilityLoop env page maxRepeats (stableCountRepeats + 1) lastCount s1
      else stabilityLoop env page maxRepeats 0 currentCount s1)"
  by (subst stabilityLoop_unfold) simp

lemma stabilityLoop_done:
  "\<not> stableCountRepeats < maxRepeats \<Longrightarrow>
   stabilityLoop env page maxRepeats stableCountRepeats lastCount s = Some (Inr lastCount, s)"
  by (subst stabilityLoop_unfold) simp

lemma readings_Cons:
  "readings env page s (c # cs) s' =
     (\<exists>s1. readCount env page s = Some (Inr c, s1) \<and> readings env page s1 cs s')"
  by (auto split: option.splits prod.splits sum.splits)

declare readings.simps(2) [simp del]

lemma five_readings:
  assumes "readings env page s [a, b, c, d, e] s'"
  obtains s1 s2 s3 s4 where
    "readCount env page s = Some (Inr a, s1)" "readCount env page s1 = Some (Inr b, s2)"
    "readCount env page s2 = Some (Inr c, s3)" "readCount env page s3 = Some (Inr d, s4)"
    "readCount env page s4 = Some (Inr e, s')"
  using assms by (auto simp: readings_Cons)

lemma threes_pending:
  assumes "readings env page s [3, 3, 3, 3, 3] s'"
  shows "stabilityLoop env page 5 0 0 s = stabilityLoop env page 5 4 3 s'"
proof -
  from assms obtain s1 s2 s3 s4 where r:
    "readCount env page s = Some (Inr 3, s1)" "readCount env page s1 = Some (Inr 3, s2)"
    "readCount env page s2 = Some (Inr 3, s3)" "readCount env page s3 = Some (Inr 3, s4)"
    "readCount env page s4 = Some (Inr 3, s')"
    by (rule five_readings)
  have "stabilityLoop env page 5 0 0 s = stabilityLoop env page 5 0 3 s1"
    by (simp add: stabilityLoop_step[OF r(1)] eval_nat_numeral)
  also have "\<dots> = stabilityLoop env page 5 1 3 s2"
    by (simp add: stabilityLoop_step[OF r(2)] eval_nat_numeral)
  also have "\<dots> = stabilityLoop env page 5 2 3 s3"
    by (simp add: stabilityLoop_step[OF r(3)] eval_nat_numeral)
  also have "\<dots> = stabilityLoop env page 5 3 3 s4"
    by (simp add: stabilityLoop_step[OF r(4)] eval_nat_numeral)
  also have "\<dots> = stabilityLoop env page 5 4 3 s'"
    by (simp add: stabilityLoop_step[OF r(5)] eval_nat_numeral)
  finally show ?thesis .
qed

lemma three_fours_pending:
  assumes "readings env page s [3, 4, 4, 4, 4, 4] s'"
  shows "stabilityLoop env page 5 0 0 s = stabilityLoop env page 5 4 4 s'"
proof -
  from assms obtain s0 where r0: "readCount env page s = Some (Inr 3, s0)"
    and rest: "readings env page s0 [4, 4, 4, 4, 4] s'"
    by (auto simp: readings_Cons)
  from rest obtain s1 s2 s3 s4 where r:
    "readCount env page s0 = Some (Inr 4, s1)" "readCount env page s1 = Some (Inr 4, s2)"
    "readCount env page s2 = Some (Inr 4, s3)" "readCount env page s3 = Some (Inr 4, s4)"
    "readCount env page s4 = Some (Inr 4, s')"
    by (rule five_readings)
  have "stabilityLoop env page 5 0 0 s = stabilityLoop env page 5 0 3 s0"
    by (simp add: stabilityLoop_step[OF r0] eval_nat_numeral)
  also have "\<dots> = stabilityLoop env page 5 0 4 s1"
    by (simp add: stabilityLoop_step[OF r(1)] eval_nat_numeral)
  also have "\<dots> = stabilityLoop env page 5 1 4 s2"
    by (simp add: stabilityLoop_step[OF r(2)] eval_nat_numeral)
  also have "\<dots> = stabilityLoop env page 5 2 4 s3"
    by (simp add: stabilityLoop_step[OF r(3)] eval_nat_numeral)
  also have "\<dots> = stabilityLoop env page 5 3 4 s4"
    by (simp add: stabilityLoop_step[OF r(4)] eval_nat_numeral)
  also have "\<dots> = stabilityLoop env page 5 4 4 s'"
    by (simp add: stabilityLoop_step[OF r(5)] eval_nat_numeral)
  finally show ?thesis .
qed

lemma readings_snoc:
  "readings env page s (cs @ [c]) s' =
     (\<exists>s1. readings env page s cs s1 \<and> readCount env page s1 = Some (Inr c, s'))"
  by (induction cs arbitrary: s) (auto simp: readings_Cons)


lemma counts_read:
  "w < length counts \<Longrightarrow>
   readCount (countsEnv counts) 0 \<lparr>world = w, trace = tr\<rparr> =
     Some (Inr (counts ! w), \<lparr>world = Suc w, trace = tr @ stableTrace 0 (Suc 0)\<rparr>)"
proof -
  have "scrollUntilNoChange (countsEnv counts) 0 1000 500 \<lparr>world = w, trace = tr\<rparr> =
     Some (Inr (), \<lparr>world = w, trace = tr @
       [EvScrollHeight 0, EvPage 0 (ScrollBy 1000), EvDelay 500, EvScrollHeight 0]\<rparr>)"
    by (rule scroll_static[where h = 1000]) (simp_all add: countsEnv_def staticEnv_def)
  then show "w < length counts \<Longrightarrow> ?thesis"
    by (simp add: readCount_def countCards_def prim_def delay_def countsEnv_def staticEnv_def
        stableTrace_def)
qed

lemma counts_exhausted:
  "\<not> w < length counts \<Longrightarrow>
   readCount (countsEnv counts) 0 \<lparr>world = w, trace = tr\<rparr> =
     Some (Inl (JsError ''no more readings''),
           \<lparr>world = Suc w, trace = tr @ stableTrace 0 (Suc 0)\<rparr>)"
proof -
  have "scrollUntilNoChange (countsEnv counts) 0 1000 500 \<lparr>world = w, trace = tr\<rparr> =
     Some (Inr (), \<lparr>world = w, trace = tr @
       [EvScrollHeight 0, EvPage 0 (ScrollBy 1000), EvDelay 500, EvScrollHeight 0]\<rparr>)"
    by (rule scroll_static[where h = 1000]) (simp_all add: countsEnv_def staticEnv_def)
  then show "\<not> w < length counts \<Longrightarrow> ?thesis"
    by (simp add: readCount_def countCards_def prim_def delay_def countsEnv_def staticEnv_def
        stableTrace_def)
qed

lemma counts_readings:
  "w \<le> length counts \<Longrightarrow>
   readings (countsEnv counts) 0 \<lparr>world = w, trace = stableTrace 0 w\<rparr> (drop w counts)
     \<lparr>world = length counts, trace = stableTrace 0 (length counts)\<rparr>"
proof (induction "length counts - w" arbitrary: w)
  case 0
  then show ?case by simp
next
  case (Suc d)
  then have w: "w < length counts" "d = length counts - Suc w" "Suc w \<le> length counts"
    by simp_all
  have "drop w counts = counts ! w # drop (Suc w) counts"
    using w(1) by (simp add: Cons_nth_drop_Suc)
  with Suc(1)[OF w(2) w(3)] counts_read[OF w(1), of "stableTrace 0 w"] show ?case
    by (simp add: readings_Cons stableTrace_snoc)
qed

lemma stabilityLoop_last_repeat:
  "stabilityLoop env page 5 4 la s' =
     (case readCount env page s' of
        None \<Rightarrow> None
      | Some (Inl e, s2) \<Rightarrow> Some (Inl e, s2)
      | Some (Inr c, s2) \<Rightarrow>
          if c = la then Some (Inr la, s2) else stabilityLoop env page 5 0 c s2)"
  by (subst stabilityLoop_unfold)
    (simp add: stabilityLoop_done split: option.splits prod.splits sum.splits)

lemma counts_readings_initial:
  "readings (countsEnv counts) 0 initial counts
     \<lparr>world = length counts, trace = stableTrace 0 (length counts)\<rparr>"
  using counts_readings[of 0 counts] by (simp add: initial_def stableTrace_0)

text \<open>
  Claim C2, as amended. The Stability Detector starts with \<open>stableCountRepeats = 0\<close> and
  \<open>lastCount = 0\<close>; a reading equal to \<open>lastCount\<close> increments \<open>stableCountRepeats\<close>, any
  other reading resets it to 0 and becomes \<open>lastCount\<close>. Simulated with the item-count
  sequence \<open>[3,3,3,3,3]\<close> and threshold 5, it has \<open>lastCount = 3\<close> and
  \<open>stableCountRepeats = 4\<close> after the five readings and has not terminated: it makes a
  sixth reading, and terminates with \<open>lastCount = 3\<close> when that reading is 3 (the sequence
  \<open>[3,3,3,3,3,3]\<close>). Simulated with \<open>[3,4,4,4,4,4]\<close> and threshold 5, only the trailing run
  of equal values counts: after the six readings \<open>lastCount = 4\<close> and
  \<open>stableCountRepeats = 4\<close>, and a seventh reading of 4 terminates it with \<open>lastCount = 4\<close>.
\<close>

theorem stability_needs_repeats:
  "scrollAndWaitForStability env page maxRepeats s = stabilityLoop env page maxRepeats 0 0 s
   \<and> (readCount env page s = Some (Inr currentCount, s1) \<and> stableCountRepeats < maxRepeats \<longrightarrow>
        stabilityLoop env page maxRepeats stableCountRepeats lastCount s =
          (if currentCount = lastCount
           then stabilityLoop env page maxRepeats (stableCountRepeats + 1) lastCount s1
           else stabilityLoop env page maxRepeats 0 currentCount s1))
   \<and> (readings env page s [3, 3, 3, 3, 3] s' \<longrightarrow>
        scrollAndWaitForStability env page 5 s = stabilityLoop env page 5 4 3 s'
        \<and> stabilityLoop env page 5 4 3 s' =
            (case readCount env page s' of
               None \<Rightarrow> None
             | Some (Inl e, s2) \<Rightarrow> Some (Inl e, s2)
             | Some (Inr sixth, s2) \<Rightarrow>
                 if sixth = 3 then Some (Inr 3, s2) else stabilityLoop env page 5 0 sixth s2))
   \<and> (readings env page s [3, 3, 3, 3, 3, 3] s' \<longrightarrow>
        scrollAndWaitForStability env page 5 s = Some (Inr 3, s'))
   \<and> (readings env page s [3, 4, 4, 4, 4, 4] s' \<longrightarrow>
        scrollAndWaitForStability env page 5 s = stabilityLoop env page 5 4 4 s'
        \<and> stabilityLoop env page 5 4 4 s' =
            (case readCount env page s' of
               None \<Rightarrow> None
             | Some (Inl e, s2) \<Rightarrow> Some (Inl e, s2)
             | Some (Inr seventh, s2) \<Rightarrow>
                 if seventh = 4 then Some (Inr 4, s2) else stabilityLoop env page 5 0 seventh s2))
   \<and> (readings env page s [3, 4, 4, 4, 4, 4, 4] s' \<longrightarrow>
        scrollAndWaitForStability env page 5 s = Some (Inr 4, s'))"
proof -
  note last_step = stabilityLoop_last_repeat
  have 1: "scrollAndWaitForStability env page maxRepeats s = stabilityLoop env page maxRepeats 0 0 s"
    by (simp add: scrollAndWaitForStability_def)
  have 2: "readCount env page s = Some (Inr currentCount, s1) \<and> stableCountRepeats < maxRepeats \<longrightarrow>
        stabilityLoop env page maxRepeats stableCountRepeats lastCount s =
          (if currentCount = lastCount
           then stabilityLoop env page maxRepeats (stableCountRepeats + 1) lastCount s1
           else stabilityLoop env page maxRepeats 0 currentCount s1)"
    using stabilityLoop_step by blast
  have 3: "scrollAndWaitForStability env page 5 s = stabilityLoop env page 5 4 3 s'"
    if "readings env page s [3, 3, 3, 3, 3] s'"
    using threes_pending[OF that] by (simp add: scrollAndWaitForStability_def)
  have 4: "scrollAndWaitForStability env page 5 s = Some (Inr 3, s')"
    if r: "readings env page s [3, 3, 3, 3, 3, 3] s'"
  proof -
    from r readings_snoc[of env page s "[3, 3, 3, 3, 3]" 3 s'] obtain s5 where
      a: "readings env page s [3, 3, 3, 3, 3] s5" "readCount env page s5 = Some (Inr 3, s')"
      by auto
    show ?thesis
      unfolding scrollAndWaitForStability_def threes_pending[OF a(1)] last_step
      by (simp add: a(2))
  qed
  have 5: "scrollAndWaitForStability env page 5 s = stabilityLoop env page 5 4 4 s'"
    if "readings env page s [3, 4, 4, 4, 4, 4] s'"
    using three_fours_pending[OF that] by (simp add: scrollAndWaitForStability_def)
  have 6: "scrollAndWaitForStability env page 5 s = Some (Inr 4, s')"
    if r: "readings env page s [3, 4, 4, 4, 4, 4, 4] s'"
  proof -
    from r readings_snoc[of env page s "[3, 4, 4, 4, 4, 4]" 4 s'] obtain s6 where
      a: "readings env page s [3, 4, 4, 4, 4, 4] s6" "readCount env page s6 = Some (Inr 4, s')"
      by auto
    show ?thesis
      unfolding scrollAndWaitForStability_def three_fours_pending[OF a(1)] last_step
      by (simp add: a(2))
  qed
  from 1 2 3 4 5 6 last_step[of env page 3 s'] last_step[of env page 4 s'] show ?thesis
    by blast
qed

theorem stability_needs_repeats_witness:
  "readings (countsEnv [3, 3, 3, 3, 3, 3]) 0 initial [3, 3, 3, 3, 3, 3]
      \<lparr>world = 6, trace = stableTrace 0 6\<rparr>
   \<and> scrollAndWaitForStability (countsEnv [3, 3, 3, 3, 3, 3]) 0 5 initial
       = Some (Inr 3, \<lparr>world = 6, trace = stableTrace 0 6\<rparr>)
   \<and> readings (countsEnv [3, 4, 4, 4, 4, 4, 4]) 0 initial [3, 4, 4, 4, 4, 4, 4]
      \<lparr>world = 7, trace = stableTrace 0 7\<rparr>
   \<and> scrollAndWaitForStability (countsEnv [3, 4, 4, 4, 4, 4, 4]) 0 5 initial
       = Some (Inr 4, \<lparr>world = 7, trace = stableTrace 0 7\<rparr>)"
proof -
  have r6: "readings (countsEnv [3, 3, 3, 3, 3, 3]) 0 initial [3, 3, 3, 3, 3, 3]
      \<lparr>world = 6, trace = stableTrace 0 6\<rparr>"
    using counts_readings_initial[of "[3, 3, 3, 3, 3, 3]"] by (simp add: eval_nat_numeral)
  have r7: "readings (countsEnv [3, 4, 4, 4, 4, 4, 4]) 0 initial [3, 4, 4, 4, 4, 4, 4]
      \<lparr>world = 7, trace = stableTrace 0 7\<rparr>"
    using counts_readings_initial[of "[3, 4, 4, 4, 4, 4, 4]"] by (simp add: eval_nat_numeral)
  note a = stability_needs_repeats[where env = "countsEnv [3, 3, 3, 3, 3, 3]" and page = 0
      and s = initial and s' = "\<lparr>world = 6, trace = stableTrace 0 6\<rparr>"]
  note b = stability_needs_repeats[where env = "countsEnv [3, 4, 4, 4, 4, 4, 4]" and page = 0
      and s = initial and s' = "\<lparr>world = 7, trace = stableTrace 0 7\<rparr>"]
  have 1: "scrollAndWaitForStability (countsEnv [3, 3, 3, 3, 3, 3]) 0 5 initial
       = Some (Inr 3, \<lparr>world = 6, trace = stableTrace 0 6\<rparr>)"
    using a[THEN conjunct2, THEN conjunct2, THEN conjunct2, THEN conjunct1, THEN mp, OF r6] .
  have 2: "scrollAndWaitForStability (countsEnv [3, 4, 4, 4, 4, 4, 4]) 0 5 initial
       = Some (Inr 4, \<lparr>world = 7, trace = stableTrace 0 7\<rparr>)"
    using b[THEN conjunct2, THEN conjunct2, THEN conjunct2, THEN conjunct2, THEN conjunct2,
        THEN mp, OF r7] .
  from r6 1 r7 2 show ?thesis by (intro conjI)
qed

text \<open>
  Claim C2 as stated fails: the first reading of 3 differs from the initial \<open>lastCount = 0\<close>,
  so it sets \<open>lastCount\<close> and leaves \<open>stableCountRepeats\<close> at 0, and five readings of 3 make
  four repeats, one short of the threshold. On the page that shows three cards at five
  queries and throws at the next, the detector makes the sixth query and ends with the
  error.
\<close>

theorem stability_five_readings_counterexample:
  "readings (countsEnv [3, 3, 3, 3, 3]) 0 initial [3, 3, 3, 3, 3]
      \<lparr>world = 5, trace = stableTrace 0 5\<rparr>
   \<and> scrollAndWaitForStability (countsEnv [3, 3, 3, 3, 3]) 0 5 initial
       = Some (Inl (JsError ''no more readings''), \<lparr>world = 6, trace = stableTrace 0 6\<rparr>)
   \<and> scrollAndWaitForStability (countsEnv [3, 3, 3, 3, 3]) 0 5 initial
       \<noteq> Some (Inr 3, \<lparr>world = 5, trace = stableTrace 0 5\<rparr>)
   \<and> \<not> (\<forall>env :: nat env. \<forall>page s s'. readings env page s [3, 3, 3, 3, 3] s' \<longrightarrow>
          scrollAndWaitForStability env page 5 s = Some (Inr 3, s'))"
proof -
  let ?E = "countsEnv [3, 3, 3, 3, 3]"
  let ?S5 = "\<lparr>world = 5, trace = stableTrace 0 5\<rparr>"
  have r5: "readings ?E 0 initial [3, 3, 3, 3, 3] ?S5"
    using counts_readings_initial[of "[3, 3, 3, 3, 3]"] by (simp add: eval_nat_numeral)
  have sixth: "readCount ?E 0 ?S5 =
      Some (Inl (JsError ''no more readings''), \<lparr>world = 6, trace = stableTrace 0 6\<rparr>)"
    using counts_exhausted[of 5 "[3, 3, 3, 3, 3]" "stableTrace 0 5"] stableTrace_snoc[of 0 5]
    by (simp add: eval_nat_numeral)
  have run: "scrollAndWaitForStability ?E 0 5 initial =
      Some (Inl (JsError ''no more readings''), \<lparr>world = 6, trace = stableTrace 0 6\<rparr>)"
    unfolding scrollAndWaitForStability_def threes_pending[OF r5] stabilityLoop_last_repeat
    by (simp add: sixth)
  have ne: "scrollAndWaitForStability ?E 0 5 initial \<noteq> Some (Inr 3, ?S5)"
    unfolding run by simp
  have "\<not> (\<forall>env :: nat env. \<forall>page s s'. readings env page s [3, 3, 3, 3, 3] s' \<longrightarrow>
          scrollAndWaitForStability env page 5 s = Some (Inr 3, s'))"
    using r5 ne by blast
  with r5 run ne show ?thesis by (intro conjI)
qed


subsection \<open>The run coordinator\<close>

text \<open>
  An action is \<open>quiet\<close> when it neither closes the browser nor exits the process. Everything
  inside the \<open>try\<close> block of the run coordinator is quiet, so the only lifecycle events
  of a run are those of its \<open>finally\<close> block.
\<close>

lemma quiet_andThen: "quiet m \<Longrightarrow> (\<And>x. quiet (f x)) \<Longrightarrow> quiet (andThen m f)"
  unfolding quiet_def andThen_def
  by (fastforce split: option.splits prod.splits sum.splits)

lemma quiet_prim: "\<not> lifecycleEvent ev \<Longrightarrow> quiet (call (prim ev op))"
  unfolding quiet_def call_def prim_def
  by (auto split: prod.splits)

lemma quiet_pageDo: "quiet (call (pageDo env page cmd))"
  unfolding pageDo_def by (rule quiet_prim) simp

lemma quiet_newPage: "quiet (call (newPage env browser))"
  unfolding newPage_def by (rule quiet_prim) simp

lemma quiet_pause: "quiet (pause env t)"
  unfolding quiet_def pause_def delay_def by auto

lemma quiet_return: "quiet (\<lambda>s. Some (Inr x, s))"
  unfolding quiet_def by auto

lemma lifecycle_filter:
  "filter isCloseBrowser evs = [] \<Longrightarrow> filter isProcessExit evs = [] \<Longrightarrow>
   filter lifecycleEvent evs = []"
proof (induction evs)
  case Nil
  then show ?case by simp
next
  case (Cons ev evs)
  then show ?case by (cases ev) (auto split: if_splits)
qed

lemma quiet_scrapeAllProducts: "quiet (scrapeAllProducts env page url)"
  unfolding quiet_def
proof (intro allI impI)
  fix s r s' assume "scrapeAllProducts env page url s = Some (r, s')"
  from scrapeAllProducts_trace[OF this] obtain evs where
    "trace s' = trace s @ evs" "filter isCloseBrowser evs = []" "filter isProcessExit evs = []"
    by blast
  then show "\<exists>evs. trace s' = trace s @ evs \<and> filter lifecycleEvent evs = []"
    using lifecycle_filter by blast
qed

lemma quiet_changeStore: "quiet (changeStore env page location)"
  unfolding changeStore_def
  by (intro quiet_andThen quiet_pageDo quiet_pause)

lemma quiet_writeToCSV: "quiet (writeToCSV env data outPath)"
  unfolding writeToCSV_def Let_def
  by (intro quiet_andThen quiet_prim) (auto split: option.splits intro: quiet_prim quiet_return)

lemma quiet_withBrowser: "quiet (withBrowser env browser url csvName)"
  unfolding withBrowser_def
  by (intro quiet_andThen quiet_pageDo quiet_pause quiet_newPage quiet_changeStore
      quiet_scrapeAllProducts quiet_writeToCSV quiet_return)


lemma lifecycle_none:
  "filter lifecycleEvent evs = [] \<Longrightarrow>
   filter isCloseBrowser evs = [] \<and> filter isProcessExit evs = []"
proof (induction evs)
  case Nil
  then show ?case by simp
next
  case (Cons ev evs)
  then show ?case by (cases ev) (auto split: if_splits)
qed

lemma connect_trace:
  "connectToBrowser env s = (r, s1) \<Longrightarrow> trace s1 = trace s @ [EvConnect]"
  by (auto simp: connectToBrowser_def prim_def split: prod.splits)

lemma close_trace:
  "closeBrowser env b s = (r, s1) \<Longrightarrow> trace s1 = trace s @ [EvCloseBrowser b]"
  by (auto simp: closeBrowser_def prim_def split: prod.splits)

lemma main_offline:
  assumes "connectToBrowser env s = (Inl e, s1)"
  shows "main env url csvName s = Some (Inr [], processExit 0 s1)"
    and "emitted s (processExit 0 s1) = [EvConnect, EvProcessExit 0]"
proof -
  show "main env url csvName s = Some (Inr [], processExit 0 s1)"
    using assms by (simp add: main_def tryBlock_def finallyBlock_def)
  show "emitted s (processExit 0 s1) = [EvConnect, EvProcessExit 0]"
    using connect_trace[OF assms] by (simp add: emitted_def processExit_def)
qed

lemma main_online:
  assumes "connectToBrowser env s = (Inr browser, s1)"
    and "withBrowser env browser url csvName s1 = Some (r, s2)"
  shows "main env url csvName s =
     Some (case closeBrowser env browser s2 of
             (Inl e, s3) \<Rightarrow> (Inl e, s3)
           | (Inr _, s3) \<Rightarrow>
               (Inr (case r of Inl error \<Rightarrow> [] | Inr allProducts \<Rightarrow> allProducts),
                processExit 0 s3))"
  using assms
  by (cases r) (simp_all add: main_def tryBlock_def finallyBlock_def split: prod.splits sum.splits)

lemma main_trace:
  assumes "main env url csvName s = Some (r, s')"
  shows "length (filter isCloseBrowser (emitted s s')) =
           (case fst (connectToBrowser env s) of Inl e \<Rightarrow> 0 | Inr browser \<Rightarrow> 1)"
    and "length (filter isProcessExit (emitted s s')) = (case r of Inl e \<Rightarrow> 0 | Inr res \<Rightarrow> 1)"
    and "\<forall>e. r = Inl e \<longrightarrow>
           (\<exists>browser s2. fst (connectToBrowser env s) = Inr browser
              \<and> closeBrowser env browser s2 = (Inl e, s'))"
proof -
  obtain rc s1 where c: "connectToBrowser env s = (rc, s1)" by force
  have "length (filter isCloseBrowser (emitted s s')) =
           (case fst (connectToBrowser env s) of Inl e \<Rightarrow> 0 | Inr browser \<Rightarrow> 1)
      \<and> length (filter isProcessExit (emitted s s')) = (case r of Inl e \<Rightarrow> 0 | Inr res \<Rightarrow> 1)
      \<and> (\<forall>e. r = Inl e \<longrightarrow>
           (\<exists>browser s2. fst (connectToBrowser env s) = Inr browser
              \<and> closeBrowser env browser s2 = (Inl e, s')))"
  proof (cases rc)
    case (Inl e)
    from main_offline(1)[OF c[unfolded Inl], where url = url and csvName = csvName]
      main_offline(2)[OF c[unfolded Inl]] assms
    have "r = Inr []" "s' = processExit 0 s1" "emitted s s' = [EvConnect, EvProcessExit 0]"
      by simp_all
    with c Inl show ?thesis by simp
  next
    case (Inr b)
    from assms c Inr obtain r2 s2 where w: "withBrowser env b url csvName s1 = Some (r2, s2)"
      by (auto simp: main_def tryBlock_def split: option.splits)
    from quiet_withBrowser[unfolded quiet_def, rule_format, OF w] obtain evs where
      evs: "trace s2 = trace s1 @ evs" "filter lifecycleEvent evs = []" by blast
    note q = lifecycle_none[OF evs(2)]
    obtain r3 s3 where cl: "closeBrowser env b s2 = (r3, s3)" by force
    have t3: "trace s3 = trace s @ EvConnect # evs @ [EvCloseBrowser b]"
      using connect_trace[OF c] evs(1) close_trace[OF cl] by simp
    from main_online[OF c[unfolded Inr] w] assms cl
    have m: "(r, s') = (case r3 of Inl e \<Rightarrow> (Inl e, s3)
        | Inr u \<Rightarrow> (Inr (case r2 of Inl error \<Rightarrow> [] | Inr allProducts \<Rightarrow> allProducts),
                     processExit 0 s3))"
      by (simp split: sum.splits)
    show ?thesis
    proof (cases r3)
      case (Inl e)
      with m have "r = Inl e" "s' = s3" by simp_all
      with t3 q c Inr cl Inl show ?thesis
        by (auto simp: emitted_def)
    next
      case r3: (Inr u)
      with m have "r = Inr (case r2 of Inl error \<Rightarrow> [] | Inr allProducts \<Rightarrow> allProducts)"
        "s' = processExit 0 s3" by simp_all
      with t3 q c Inr show ?thesis
        by (simp add: emitted_def processExit_def)
    qed
  qed
  then show "length (filter isCloseBrowser (emitted s s')) =
           (case fst (connectToBrowser env s) of Inl e \<Rightarrow> 0 | Inr browser \<Rightarrow> 1)"
    and "length (filter isProcessExit (emitted s s')) = (case r of Inl e \<Rightarrow> 0 | Inr res \<Rightarrow> 1)"
    and "\<forall>e. r = Inl e \<longrightarrow>
           (\<exists>browser s2. fst (connectToBrowser env s) = Inr browser
              \<and> closeBrowser env browser s2 = (Inl e, s'))"
    by blast+
qed

lemma setup_run:
  assumes "e_newPage E 0 w = (Inr 0, w)" "\<And>c. e_page E 0 c w = (Inr (), w)"
    "e_delay E 5000 w = w"
  shows "withBrowser E 0 url csvName \<lparr>world = w, trace = tr\<rparr> =
     andThen (scrapeAllProducts E 0 url) (\<lambda>products.
     andThen (call (pageDo E 0 ClosePage)) (\<lambda>_.
     andThen (writeToCSV E ([] @ products) csvName) (\<lambda>_.
     (\<lambda>s. Some (Inr ([] @ products), s)))))
       \<lparr>world = w, trace = tr @ setupTrace\<rparr>"
  using assms
  by (simp add: withBrowser_def changeStore_def andThen_def call_def pause_def newPage_def
      pageDo_def prim_def delay_def setupTrace_def)

lemma broken_scrape:
  "scrapeAllProducts brokenEnv 0 url \<lparr>world = 0, trace = tr\<rparr> =
     Some (Inl (JsError ''detached frame''),
       \<lparr>world = 0, trace = tr @ [EvPage 0 (Goto url), EvDelay 5000] @ stableTrace 0 1\<rparr>)"
proof -
  have sc: "scrollUntilNoChange brokenEnv 0 1000 500 \<lparr>world = 0, trace = tr'\<rparr> =
     Some (Inr (), \<lparr>world = 0, trace = tr' @
       [EvScrollHeight 0, EvPage 0 (ScrollBy 1000), EvDelay 500, EvScrollHeight 0]\<rparr>)" for tr'
    by (rule scroll_static[where h = 1000]) (simp_all add: brokenEnv_def staticEnv_def)
  have cc: "countCards brokenEnv 0 (delay brokenEnv 2000 \<lparr>world = 0, trace = tr'\<rparr>) =
     (Inl (JsError ''detached frame''),
      \<lparr>world = 0, trace = tr' @ [EvDelay 2000, EvCountCards 0]\<rparr>)" for tr'
    by (simp add: countCards_def prim_def delay_def brokenEnv_def staticEnv_def)
  have st: "scrollAndWaitForStability brokenEnv 0 5 \<lparr>world = 0, trace = tr'\<rparr> =
     Some (Inl (JsError ''detached frame''), \<lparr>world = 0, trace = tr' @ stableTrace 0 1\<rparr>)" for tr'
    unfolding scrollAndWaitForStability_def
    by (subst stabilityLoop.simps) (simp add: sc cc stableTrace_def)
  have go: "pageDo brokenEnv 0 (Goto url) \<lparr>world = 0, trace = tr\<rparr> =
     (Inr (), \<lparr>world = 0, trace = tr @ [EvPage 0 (Goto url)]\<rparr>)"
    by (simp add: pageDo_def prim_def brokenEnv_def staticEnv_def)
  have wait: "delay brokenEnv 5000 \<lparr>world = 0, trace = tr'\<rparr> =
     \<lparr>world = 0, trace = tr' @ [EvDelay 5000]\<rparr>" for tr'
    by (simp add: delay_def brokenEnv_def staticEnv_def)
  show ?thesis
    unfolding scrapeAllProducts_def
    by (subst pageLoop.simps) (simp add: go wait st)
qed

lemma static_scrape:
  assumes "invalidEntries (map extractFieldsFromCard cards) = []"
  shows "scrapeAllProducts (staticEnv cards) 0 url \<lparr>world = 0, trace = tr\<rparr> =
     Some (Inr (map extractFieldsFromCard cards),
       \<lparr>world = 0, trace = tr @ [EvPage 0 (Goto url), EvDelay 5000]
          @ stableTrace 0 (if cards = [] then 5 else 6)
          @ [EvPage 0 (Screenshot 1), EvExtractCards 0 (Some cards), EvQueryNext 0]\<rparr>)"
proof -
  let ?E = "staticEnv cards"
  have go: "pageDo ?E 0 (Goto url) \<lparr>world = 0, trace = tr\<rparr> =
     (Inr (), \<lparr>world = 0, trace = tr @ [EvPage 0 (Goto url)]\<rparr>)"
    by (simp add: pageDo_def prim_def staticEnv_def)
  have wait: "delay ?E 5000 \<lparr>world = 0, trace = tr'\<rparr> =
     \<lparr>world = 0, trace = tr' @ [EvDelay 5000]\<rparr>" for tr'
    by (simp add: delay_def staticEnv_def)
  have pp: "processPage ?E 0 n \<lparr>world = 0, trace = tr'\<rparr> =
      Some (Inr (map extractFieldsFromCard cards),
        \<lparr>world = 0, trace = tr' @ stableTrace 0 (if cards = [] then 5 else 6)
           @ [EvPage 0 (Screenshot n), EvExtractCards 0 (Some cards)]\<rparr>)" for tr' n
    using processPage_static[of ?E 0 0 1000 cards n tr'] assms by (simp add: staticEnv_def)
  have dec: "n < 20 \<Longrightarrow> deciding ?E 0 n \<lparr>world = 0, trace = tr'\<rparr> =
      (Inr False, \<lparr>world = 0, trace = tr' @ [EvQueryNext 0]\<rparr>)" for tr' n
    by (simp add: deciding_def MAX_PAGES_def queryNext_def prim_def staticEnv_def)
  show ?thesis
    unfolding scrapeAllProducts_def
    by (subst pageLoop_unfold) (simp add: go wait pp dec)
qed

text \<open>
  Claim C4, as amended. An error thrown while acquiring the rendering session, during setup
  or during extraction is caught by the run coordinator and converted into an empty result:
  the run returns \<open>[]\<close> and the error does not leave \<open>main\<close>; a run whose \<open>try\<close> block
  succeeds returns the extracted records. The \<open>finally\<close> block runs on every exit path. It
  invokes \<open>browser.close()\<close> exactly once when the rendering session was acquired (success,
  setup failure after acquisition, extraction failure) and not at all when the acquisition
  itself failed, because then there is no session and the guard \<open>if (browser)\<close> skips the
  call; \<open>process.exit(0)\<close> follows exactly once. The only error that leaves \<open>main\<close> is one
  thrown by \<open>browser.close()\<close> itself.
\<close>

theorem main_failure_and_cleanup:
  "(connectToBrowser env s = (Inl e, s1) \<longrightarrow>
      main env url csvName s = Some (Inr [], processExit 0 s1)
      \<and> emitted s (processExit 0 s1) = [EvConnect, EvProcessExit 0])
   \<and> (connectToBrowser env s = (Inr browser, s1)
        \<and> withBrowser env browser url csvName s1 = Some (Inl e, s2)
        \<and> closeBrowser env browser s2 = (Inr (), s3) \<longrightarrow>
        main env url csvName s = Some (Inr [], processExit 0 s3))
   \<and> (connectToBrowser env s = (Inr browser, s1)
        \<and> withBrowser env browser url csvName s1 = Some (Inr allProducts, s2)
        \<and> closeBrowser env browser s2 = (Inr (), s3) \<longrightarrow>
        main env url csvName s = Some (Inr allProducts, processExit 0 s3))
   \<and> (main env url csvName s = Some (r, s') \<longrightarrow>
        length (filter isCloseBrowser (emitted s s')) =
          (case fst (connectToBrowser env s) of Inl e \<Rightarrow> 0 | Inr browser \<Rightarrow> 1)
        \<and> length (filter isProcessExit (emitted s s')) = (case r of Inl e \<Rightarrow> 0 | Inr res \<Rightarrow> 1)
        \<and> (\<forall>e. r = Inl e \<longrightarrow>
             (\<exists>browser s2. fst (connectToBrowser env s) = Inr browser
                \<and> closeBrowser env browser s2 = (Inl e, s'))))"
proof (intro conjI impI)
  assume a: "connectToBrowser env s = (Inl e, s1)"
  show "main env url csvName s = Some (Inr [], processExit 0 s1)"
    using main_offline(1)[OF a] .
  show "emitted s (processExit 0 s1) = [EvConnect, EvProcessExit 0]"
    using main_offline(2)[OF a] .
next
  assume "connectToBrowser env s = (Inr browser, s1)
        \<and> withBrowser env browser url csvName s1 = Some (Inl e, s2)
        \<and> closeBrowser env browser s2 = (Inr (), s3)"
  then show "main env url csvName s = Some (Inr [], processExit 0 s3)"
    using main_online[of env s browser s1 url csvName "Inl e" s2] by simp
next
  assume "connectToBrowser env s = (Inr browser, s1)
        \<and> withBrowser env browser url csvName s1 = Some (Inr allProducts, s2)
        \<and> closeBrowser env browser s2 = (Inr (), s3)"
  then show "main env url csvName s = Some (Inr allProducts, processExit 0 s3)"
    using main_online[of env s browser s1 url csvName "Inr allProducts" s2] by simp
next
  assume a: "main env url csvName s = Some (r, s')"
  show "length (filter isCloseBrowser (emitted s s')) =
          (case fst (connectToBrowser env s) of Inl e \<Rightarrow> 0 | Inr browser \<Rightarrow> 1)"
    using main_trace(1)[OF a] .
  show "length (filter isProcessExit (emitted s s')) = (case r of Inl e \<Rightarrow> 0 | Inr res \<Rightarrow> 1)"
    using main_trace(2)[OF a] .
  show "\<forall>e. r = Inl e \<longrightarrow>
             (\<exists>browser s2. fst (connectToBrowser env s) = Inr browser
                \<and> closeBrowser env browser s2 = (Inl e, s'))"
    using main_trace(3)[OF a] .
qed

text \<open>
  The three exit paths on concrete runs: the rendering session cannot be acquired
  (\<open>offlineEnv\<close>), the card query throws during extraction (\<open>brokenEnv\<close>), and a one-page
  run that succeeds (\<open>staticEnv\<close>).
\<close>

theorem main_failure_and_cleanup_witness:
  "main offlineEnv (js ''https://shop.example/lumber'') (js ''PT_2025.csv'') initial
     = Some (Inr [], \<lparr>world = 0, trace = [EvConnect, EvProcessExit 0]\<rparr>)
   \<and> main brokenEnv (js ''https://shop.example/lumber'') (js ''PT_2025.csv'') initial
     = Some (Inr [], \<lparr>world = 0, trace =
         EvConnect # setupTrace
         @ [EvPage 0 (Goto (js ''https://shop.example/lumber'')), EvDelay 5000]
         @ stableTrace 0 1 @ [EvCloseBrowser 0, EvProcessExit 0]\<rparr>)
   \<and> length (filter isCloseBrowser (emitted initial
         \<lparr>world = 0, trace =
           EvConnect # setupTrace
           @ [EvPage 0 (Goto (js ''https://shop.example/lumber'')), EvDelay 5000]
           @ stableTrace 0 1 @ [EvCloseBrowser 0, EvProcessExit 0]\<rparr>)) = 1
   \<and> length (filter isProcessExit (emitted initial
         \<lparr>world = 0, trace =
           EvConnect # setupTrace
           @ [EvPage 0 (Goto (js ''https://shop.example/lumber'')), EvDelay 5000]
           @ stableTrace 0 1 @ [EvCloseBrowser 0, EvProcessExit 0]\<rparr>)) = 1
   \<and> main (staticEnv [mkCard ''Stud'' ''2'' ''98'']) (js ''https://shop.example/lumber'')
        (js ''PT_2025.csv'') initial
     = Some (Inr [\<lparr>productName = js ''Stud'', price = js ''$2.98''\<rparr>],
         \<lparr>world = 0, trace =
           EvConnect # setupTrace
           @ [EvPage 0 (Goto (js ''https://shop.example/lumber'')), EvDelay 5000]
           @ stableTrace 0 6
           @ [EvPage 0 (Screenshot 1), EvExtractCards 0 (Some [mkCard ''Stud'' ''2'' ''98'']),
              EvQueryNext 0, EvPage 0 ClosePage,
              EvWriteFileSync (js ''PT_2025.csv'')
                (csvContent [\<lparr>productName = js ''Stud'', price = js ''$2.98''\<rparr>]),
              EvExec (js ''python sortProducts.py '' @ [0x22] @ js ''PT_2025.csv'' @ [0x22]),
              EvCloseBrowser 0, EvProcessExit 0]\<rparr>)"
proof -
  let ?url = "js ''https://shop.example/lumber''"
  let ?csv = "js ''PT_2025.csv''"
  let ?t2 = "EvConnect # setupTrace @ [EvPage 0 (Goto ?url), EvDelay 5000] @ stableTrace 0 1"
  let ?S = "\<lparr>world = 0::nat, trace = ?t2 @ [EvCloseBrowser 0, EvProcessExit 0]\<rparr>"
  have off: "connectToBrowser offlineEnv initial =
      (Inl (JsError ''connection refused''), \<lparr>world = 0, trace = [EvConnect]\<rparr>)"
    by (simp add: connectToBrowser_def prim_def offlineEnv_def staticEnv_def initial_def)
  note a = main_failure_and_cleanup[where env = offlineEnv and s = initial
      and e = "JsError ''connection refused''" and ?s1.0 = "\<lparr>world = 0, trace = [EvConnect]\<rparr>"
      and url = "?url" and csvName = "?csv"]
  have 1: "main offlineEnv ?url ?csv initial
     = Some (Inr [], \<lparr>world = 0, trace = [EvConnect, EvProcessExit 0]\<rparr>)"
    using a[THEN conjunct1, THEN mp, OF off, THEN conjunct1] by (simp add: processExit_def)
  have con: "connectToBrowser brokenEnv initial = (Inr 0, \<lparr>world = 0, trace = [EvConnect]\<rparr>)"
    by (simp add: connectToBrowser_def prim_def brokenEnv_def staticEnv_def initial_def)
  have wb: "withBrowser brokenEnv 0 ?url ?csv \<lparr>world = 0, trace = [EvConnect]\<rparr> =
      Some (Inl (JsError ''detached frame''), \<lparr>world = 0, trace = ?t2\<rparr>)"
    by (subst setup_run) (simp_all add: brokenEnv_def[symmetric] andThen_def broken_scrape,
        simp_all add: brokenEnv_def staticEnv_def)
  have cl: "closeBrowser brokenEnv 0 \<lparr>world = 0, trace = ?t2\<rparr> =
      (Inr (), \<lparr>world = 0, trace = ?t2 @ [EvCloseBrowser 0]\<rparr>)"
    by (simp add: closeBrowser_def prim_def brokenEnv_def staticEnv_def)
  note b = main_failure_and_cleanup[where env = brokenEnv and s = initial and browser = 0
      and e = "JsError ''detached frame''" and ?s1.0 = "\<lparr>world = 0, trace = [EvConnect]\<rparr>"
      and url = "?url" and csvName = "?csv" and ?s2.0 = "\<lparr>world = 0, trace = ?t2\<rparr>"
      and ?s3.0 = "\<lparr>world = 0, trace = ?t2 @ [EvCloseBrowser 0]\<rparr>"
      and r = "Inr []" and s' = "?S"]
  have 2: "main brokenEnv ?url ?csv initial = Some (Inr [], ?S)"
    using b[THEN conjunct2, THEN conjunct1, THEN mp, OF conjI[OF con conjI[OF wb cl]]]
    by (simp add: processExit_def)
  note c = b[THEN conjunct2, THEN conjunct2, THEN conjunct2, THEN mp, OF 2]
  have 3: "length (filter isCloseBrowser (emitted initial ?S)) = 1"
    using c[THEN conjunct1] by (simp add: con)
  have 4: "length (filter isProcessExit (emitted initial ?S)) = 1"
    using c[THEN conjunct2, THEN conjunct1] by simp
  let ?c = "mkCard ''Stud'' ''2'' ''98''"
  let ?rec = "\<lparr>productName = js ''Stud'', price = js ''$2.98''\<rparr>"
  let ?G = "staticEnv [?c]"
  let ?t5 = "EvConnect # setupTrace @ [EvPage 0 (Goto ?url), EvDelay 5000] @ stableTrace 0 6
      @ [EvPage 0 (Screenshot 1), EvExtractCards 0 (Some [?c]), EvQueryNext 0, EvPage 0 ClosePage,
         EvWriteFileSync ?csv (csvContent [?rec]),
         EvExec (js ''python sortProducts.py '' @ [0x22] @ ?csv @ [0x22])]"
  have v: "invalidEntries (map extractFieldsFromCard [?c]) = []"
    by (simp add: extract_Stud_2_98 invalidEntries_def isInvalidEntry_def js_def)
  have gcon: "connectToBrowser ?G initial = (Inr 0, \<lparr>world = 0, trace = [EvConnect]\<rparr>)"
    by (simp add: connectToBrowser_def prim_def staticEnv_def initial_def)
  have tail: "andThen (call (pageDo ?G 0 ClosePage)) (\<lambda>_.
        andThen (writeToCSV ?G [?rec] ?csv) (\<lambda>_. (\<lambda>s. Some (Inr [?rec], s))))
        \<lparr>world = 0, trace = tr\<rparr> =
      Some (Inr [?rec], \<lparr>world = 0, trace = tr @ [EvPage 0 ClosePage,
         EvWriteFileSync ?csv (csvContent [?rec]),
         EvExec (js ''python sortProducts.py '' @ [0x22] @ ?csv @ [0x22])]\<rparr>)" for tr
    by (simp add: andThen_def call_def pageDo_def prim_def writeToCSV_def pythonScript_def Let_def
        staticEnv_def js_def)
  have gwb: "withBrowser ?G 0 ?url ?csv \<lparr>world = 0, trace = [EvConnect]\<rparr> =
      Some (Inr [?rec], \<lparr>world = 0, trace = ?t5\<rparr>)"
    by (subst setup_run)
      (simp_all add: andThen_def[of "scrapeAllProducts ?G 0 ?url"] static_scrape[OF v]
        extract_Stud_2_98 tail, simp_all add: staticEnv_def)
  have gcl: "closeBrowser ?G 0 \<lparr>world = 0, trace = ?t5\<rparr> =
      (Inr (), \<lparr>world = 0, trace = ?t5 @ [EvCloseBrowser 0]\<rparr>)"
    by (simp add: closeBrowser_def prim_def staticEnv_def)
  note g = main_failure_and_cleanup[where env = "?G" and s = initial and browser = 0
      and ?s1.0 = "\<lparr>world = 0, trace = [EvConnect]\<rparr>"
      and url = "?url" and csvName = "?csv" and ?s2.0 = "\<lparr>world = 0, trace = ?t5\<rparr>"
      and ?s3.0 = "\<lparr>world = 0, trace = ?t5 @ [EvCloseBrowser 0]\<rparr>"
      and allProducts = "[?rec]"]
  have 5: "main ?G ?url ?csv initial =
      Some (Inr [?rec], \<lparr>world = 0, trace = ?t5 @ [EvCloseBrowser 0, EvProcessExit 0]\<rparr>)"
    using g[THEN conjunct2, THEN conjunct2, THEN conjunct1, THEN mp, OF conjI[OF gcon conjI[OF gwb gcl]]]
    by (simp add: processExit_def)
  from 1 2 3 4 5 show ?thesis by simp
qed

text \<open>
  Claim C4 as stated fails on the acquisition-failure path: when \<open>puppeteer.connect\<close> throws,
  \<open>browser\<close> is still undefined in the \<open>finally\<close> block, the guard \<open>if (browser)\<close> is false
  and \<open>browser.close()\<close> is invoked zero times, not once.
\<close>

theorem cleanup_on_acquisition_failure_counterexample:
  "main offlineEnv (js ''https://shop.example/lumber'') (js ''PT_2025.csv'') initial
     = Some (Inr [], \<lparr>world = 0, trace = [EvConnect, EvProcessExit 0]\<rparr>)
   \<and> length (filter isCloseBrowser (emitted initial
         \<lparr>world = 0, trace = [EvConnect, EvProcessExit 0]\<rparr>)) = 0
   \<and> \<not> (\<forall>env :: nat env. \<forall>url csvName s r s'. main env url csvName s = Some (r, s') \<longrightarrow>
          length (filter isCloseBrowser (emitted s s')) = 1)"
proof -
  let ?url = "js ''https://shop.example/lumber''"
  let ?csv = "js ''PT_2025.csv''"
  let ?S = "\<lparr>world = 0::nat, trace = [EvConnect, EvProcessExit 0]\<rparr>"
  have off: "connectToBrowser offlineEnv initial =
      (Inl (JsError ''connection refused''), \<lparr>world = 0, trace = [EvConnect]\<rparr>)"
    by (simp add: connectToBrowser_def prim_def offlineEnv_def staticEnv_def initial_def)
  have run: "main offlineEnv ?url ?csv initial = Some (Inr [], ?S)"
    using main_offline(1)[OF off, where url = "?url" and csvName = "?csv"]
    by (simp add: processExit_def)
  have cnt: "length (filter isCloseBrowser (emitted initial ?S)) = 0"
    by (simp add: emitted_def initial_def)
  have "\<not> (\<forall>env :: nat env. \<forall>url csvName s r s'. main env url csvName s = Some (r, s') \<longrightarrow>
          length (filter isCloseBrowser (emitted s s')) = 1)"
  proof
    assume "\<forall>env :: nat env. \<forall>url csvName s r s'. main env url csvName s = Some (r, s') \<longrightarrow>
          length (filter isCloseBrowser (emitted s s')) = 1"
    with run have "length (filter isCloseBrowser (emitted initial ?S)) = 1" by blast
    with cnt show False by simp
  qed
  with run cnt show ?thesis by (intro conjI)
qed

subsection \<open>A refresh that throws after the third attempt\<close>

lemma detaching_pageLoop:
  assumes "cards \<noteq> []" "invalidEntries (map extractFieldsFromCard cards) \<noteq> []"
  shows "pageLoop (detachingEnv cards) 0 0 [] \<lparr>world = 0, trace = tr\<rparr> =
     Some (Inl (JsError ''detached frame''),
       \<lparr>world = 3, trace = tr @ stableTrace 0 6 @ [EvPage 0 (Screenshot 1)]
          @ (EvExtractCards 0 (Some cards) # EvDelay 3000 # stableTrace 0 6)
          @ (EvExtractCards 0 (Some cards) # EvDelay 3000 # stableTrace 0 6)
          @ [EvExtractCards 0 (Some cards), EvDelay 3000, EvScrollHeight 0]\<rparr>)"
proof -
  let ?D = "detachingEnv cards"
  let ?pd = "map extractFieldsFromCard cards"
  let ?X = "EvExtractCards 0 (Some cards)"
  let ?A = "?X # EvDelay 3000 # stableTrace 0 6"
  let ?t0 = "tr @ stableTrace 0 6 @ [EvPage 0 (Screenshot 1)]"
  have st0: "scrollAndWaitForStability ?D 0 5 \<lparr>world = 0, trace = tr\<rparr> =
      Some (Inr (length cards), \<lparr>world = 0, trace = tr @ stableTrace 0 6\<rparr>)"
    using detaching_stable[of 0 cards tr] assms(1) by simp
  have shot: "pageDo ?D 0 (Screenshot (0 + 1)) \<lparr>world = 0, trace = tr @ stableTrace 0 6\<rparr> =
      (Inr (), \<lparr>world = 0, trace = ?t0\<rparr>)"
    by (simp add: pageDo_def prim_def detachingEnv_def staticEnv_def)
  have x1: "extractCards ?D 0 \<lparr>world = 0, trace = ?t0\<rparr> =
      (Inr ?pd, \<lparr>world = 0, trace = ?t0 @ [?X]\<rparr>)"
    using detaching_extract[of cards 0 ?t0] .
  have r1: "scrollAndWaitForStability ?D 0 5 (delay ?D 3000 \<lparr>world = 0, trace = ?t0 @ [?X]\<rparr>) =
      Some (Inr (length cards), \<lparr>world = 1, trace = ?t0 @ ?A\<rparr>)"
    using detaching_refresh[of 0 cards "?t0 @ [?X]"] assms(1) by simp
  have x2: "extractCards ?D 0 \<lparr>world = 1, trace = ?t0 @ ?A\<rparr> =
      (Inr ?pd, \<lparr>world = 1, trace = ?t0 @ ?A @ [?X]\<rparr>)"
    using detaching_extract[of cards 1 "?t0 @ ?A"] by simp
  have r2: "scrollAndWaitForStability ?D 0 5
        (delay ?D 3000 \<lparr>world = 1, trace = ?t0 @ ?A @ [?X]\<rparr>) =
      Some (Inr (length cards), \<lparr>world = 2, trace = ?t0 @ ?A @ ?A\<rparr>)"
    using detaching_refresh[of 1 cards "?t0 @ ?A @ [?X]"] assms(1) by (simp add: numeral_2_eq_2)
  have x3: "extractCards ?D 0 \<lparr>world = 2, trace = ?t0 @ ?A @ ?A\<rparr> =
      (Inr ?pd, \<lparr>world = 2, trace = ?t0 @ ?A @ ?A @ [?X]\<rparr>)"
    using detaching_extract[of cards 2 "?t0 @ ?A @ ?A"] by simp
  have r3: "scrollAndWaitForStability ?D 0 5
        (delay ?D 3000 \<lparr>world = 2, trace = ?t0 @ ?A @ ?A @ [?X]\<rparr>) =
      Some (Inl (JsError ''detached frame''),
        \<lparr>world = 3, trace = ?t0 @ ?A @ ?A @ [?X, EvDelay 3000, EvScrollHeight 0]\<rparr>)"
    using detaching_throws[of 2 cards "?t0 @ ?A @ ?A @ [?X]"] by simp
  show ?thesis
    using pageLoop_three_invalid[OF st0 shot x1 assms(2) r1 x2 assms(2) r2 x3 assms(2), of "[]"]
    unfolding r3 by simp
qed

lemma detaching_main:
  assumes "cards \<noteq> []" "invalidEntries (map extractFieldsFromCard cards) \<noteq> []"
  shows "main (detachingEnv cards) url csvName initial =
     Some (Inr [],
       \<lparr>world = 3, trace = EvConnect # setupTrace
          @ [EvPage 0 (Goto url), EvDelay 5000] @ stableTrace 0 6 @ [EvPage 0 (Screenshot 1)]
          @ (EvExtractCards 0 (Some cards) # EvDelay 3000 # stableTrace 0 6)
          @ (EvExtractCards 0 (Some cards) # EvDelay 3000 # stableTrace 0 6)
          @ [EvExtractCards 0 (Some cards), EvDelay 3000, EvScrollHeight 0,
             EvCloseBrowser 0, EvProcessExit 0]\<rparr>)"
proof -
  let ?D = "detachingEnv cards"
  let ?X = "EvExtractCards 0 (Some cards)"
  let ?A = "?X # EvDelay 3000 # stableTrace 0 6"
  let ?t = "EvConnect # setupTrace
      @ [EvPage 0 (Goto url), EvDelay 5000] @ stableTrace 0 6 @ [EvPage 0 (Screenshot 1)]
      @ ?A @ ?A @ [?X, EvDelay 3000, EvScrollHeight 0]"
  have con: "connectToBrowser ?D initial = (Inr 0, \<lparr>world = 0, trace = [EvConnect]\<rparr>)"
    by (simp add: connectToBrowser_def prim_def detachingEnv_def staticEnv_def initial_def)
  have go: "pageDo ?D 0 (Goto url) \<lparr>world = 0, trace = tr\<rparr> =
     (Inr (), \<lparr>world = 0, trace = tr @ [EvPage 0 (Goto url)]\<rparr>)" for tr
    by (simp add: pageDo_def prim_def detachingEnv_def staticEnv_def)
  have wait: "delay ?D 5000 \<lparr>world = 0, trace = tr\<rparr> =
     \<lparr>world = 0, trace = tr @ [EvDelay 5000]\<rparr>" for tr
    by (simp add: delay_def detachingEnv_def staticEnv_def)
  have sc: "scrapeAllProducts ?D 0 url \<lparr>world = 0, trace = EvConnect # setupTrace\<rparr> =
      Some (Inl (JsError ''detached frame''), \<lparr>world = 3, trace = ?t\<rparr>)"
    unfolding scrapeAllProducts_def
    by (simp add: go wait detaching_pageLoop[OF assms])
  have wb: "withBrowser ?D 0 url csvName \<lparr>world = 0, trace = [EvConnect]\<rparr> =
      Some (Inl (JsError ''detached frame''), \<lparr>world = 3, trace = ?t\<rparr>)"
    by (subst setup_run) (simp_all add: andThen_def sc, simp_all add: detachingEnv_def staticEnv_def)
  have cl: "closeBrowser ?D 0 \<lparr>world = 3, trace = ?t\<rparr> =
      (Inr (), \<lparr>world = 3, trace = ?t @ [EvCloseBrowser 0]\<rparr>)"
    by (simp add: closeBrowser_def prim_def detachingEnv_def staticEnv_def)
  show ?thesis
    using main_online[OF con wb] unfolding cl by (simp add: processExit_def)
qed

text \<open>
  Claim C3 as stated fails: the refresh also runs after the third invalid attempt, before
  the snapshot is appended. On the page whose frame is detached during that refresh, the
  retry loop has made three extractions, each with the invalid record, and ends with the
  error instead of the third snapshot; the run coordinator catches the error and the run
  returns the empty result.
\<close>

theorem third_refresh_throws_counterexample:
  "retryLoop (detachingEnv [mkCard ''Stud'' ''0'' ''00'']) 0 False 0 [] initial
     = Some (Inl (JsError ''detached frame''),
         \<lparr>world = 3, trace =
            (EvExtractCards 0 (Some [mkCard ''Stud'' ''0'' ''00'']) # EvDelay 3000 # stableTrace 0 6)
            @ (EvExtractCards 0 (Some [mkCard ''Stud'' ''0'' ''00'']) # EvDelay 3000 # stableTrace 0 6)
            @ [EvExtractCards 0 (Some [mkCard ''Stud'' ''0'' ''00'']), EvDelay 3000,
               EvScrollHeight 0]\<rparr>)
   \<and> map (map extractFieldsFromCard) (extractions
         ((EvExtractCards 0 (Some [mkCard ''Stud'' ''0'' ''00'']) # EvDelay 3000 # stableTrace 0 6)
          @ (EvExtractCards 0 (Some [mkCard ''Stud'' ''0'' ''00'']) # EvDelay 3000 # stableTrace 0 6)
          @ [EvExtractCards 0 (Some [mkCard ''Stud'' ''0'' ''00'']), EvDelay 3000,
             EvScrollHeight 0]))
     = [[\<lparr>productName = js ''Stud'', price = js ''$0.00''\<rparr>],
        [\<lparr>productName = js ''Stud'', price = js ''$0.00''\<rparr>],
        [\<lparr>productName = js ''Stud'', price = js ''$0.00''\<rparr>]]
   \<and> invalidEntries [\<lparr>productName = js ''Stud'', price = js ''$0.00''\<rparr>]
     = [\<lparr>productName = js ''Stud'', price = js ''$0.00''\<rparr>]
   \<and> main (detachingEnv [mkCard ''Stud'' ''0'' ''00'']) (js ''https://shop.example/lumber'')
        (js ''PT_2025.csv'') initial
     = Some (Inr [],
         \<lparr>world = 3, trace = EvConnect # setupTrace
            @ [EvPage 0 (Goto (js ''https://shop.example/lumber'')), EvDelay 5000]
            @ stableTrace 0 6 @ [EvPage 0 (Screenshot 1)]
            @ (EvExtractCards 0 (Some [mkCard ''Stud'' ''0'' ''00'']) # EvDelay 3000 # stableTrace 0 6)
            @ (EvExtractCards 0 (Some [mkCard ''Stud'' ''0'' ''00'']) # EvDelay 3000 # stableTrace 0 6)
            @ [EvExtractCards 0 (Some [mkCard ''Stud'' ''0'' ''00'']), EvDelay 3000,
               EvScrollHeight 0, EvCloseBrowser 0, EvProcessExit 0]\<rparr>)
   \<and> \<not> (\<forall>env :: nat env. \<forall>page s pd1 s1 c1 s2 pd2 s3 c2 s4 pd3 s5.
          extractCards env page s = (Inr pd1, s1) \<and> invalidEntries pd1 \<noteq> []
          \<and> scrollAndWaitForStability env page 5 (delay env 3000 s1) = Some (Inr c1, s2)
          \<and> extractCards env page s2 = (Inr pd2, s3) \<and> invalidEntries pd2 \<noteq> []
          \<and> scrollAndWaitForStability env page 5 (delay env 3000 s3) = Some (Inr c2, s4)
          \<and> extractCards env page s4 = (Inr pd3, s5) \<and> invalidEntries pd3 \<noteq> [] \<longrightarrow>
          (\<exists>s6. retryLoop env page False 0 [] s = Some (Inr (False, 3, pd3), s6)))"
proof -
  let ?bad = "mkCard ''Stud'' ''0'' ''00''"
  let ?rec = "\<lparr>productName = js ''Stud'', price = js ''$0.00''\<rparr>"
  let ?D = "detachingEnv [?bad]"
  let ?X = "EvExtractCards 0 (Some [?bad])"
  let ?A = "?X # EvDelay 3000 # stableTrace 0 6"
  let ?B = "[?X, EvDelay 3000, EvScrollHeight 0]"
  have inv: "invalidEntries [?rec] = [?rec]"
    by (simp add: invalidEntries_def isInvalidEntry_def)
  then have inv': "invalidEntries [?rec] \<noteq> []" by simp
  have inv'': "invalidEntries (map extractFieldsFromCard [?bad]) \<noteq> []"
    using inv' by (simp add: extract_Stud_0_00)
  have x1: "extractCards ?D 0 initial = (Inr [?rec], \<lparr>world = 0, trace = [?X]\<rparr>)"
    using detaching_extract[of "[?bad]" 0 "[]"] by (simp add: extract_Stud_0_00 initial_def)
  have r1: "scrollAndWaitForStability ?D 0 5 (delay ?D 3000 \<lparr>world = 0, trace = [?X]\<rparr>) =
      Some (Inr 1, \<lparr>world = 1, trace = ?A\<rparr>)"
    using detaching_refresh[of 0 "[?bad]" "[?X]"] by simp
  have x2: "extractCards ?D 0 \<lparr>world = 1, trace = ?A\<rparr> =
      (Inr [?rec], \<lparr>world = 1, trace = ?A @ [?X]\<rparr>)"
    using detaching_extract[of "[?bad]" 1 "?A"] by (simp add: extract_Stud_0_00)
  have r2: "scrollAndWaitForStability ?D 0 5 (delay ?D 3000 \<lparr>world = 1, trace = ?A @ [?X]\<rparr>) =
      Some (Inr 1, \<lparr>world = 2, trace = ?A @ ?A\<rparr>)"
    using detaching_refresh[of 1 "[?bad]" "?A @ [?X]"] by (simp add: numeral_2_eq_2)
  have x3: "extractCards ?D 0 \<lparr>world = 2, trace = ?A @ ?A\<rparr> =
      (Inr [?rec], \<lparr>world = 2, trace = ?A @ ?A @ [?X]\<rparr>)"
    using detaching_extract[of "[?bad]" 2 "?A @ ?A"] by (simp add: extract_Stud_0_00)
  have r3: "scrollAndWaitForStability ?D 0 5
        (delay ?D 3000 \<lparr>world = 2, trace = ?A @ ?A @ [?X]\<rparr>) =
      Some (Inl (JsError ''detached frame''), \<lparr>world = 3, trace = ?A @ ?A @ ?B\<rparr>)"
    using detaching_throws[of 2 "[?bad]" "?A @ ?A @ [?X]"] by simp
  have run: "retryLoop ?D 0 False 0 [] initial =
      Some (Inl (JsError ''detached frame''), \<lparr>world = 3, trace = ?A @ ?A @ ?B\<rparr>)"
    using retryLoop_three_invalid[OF x1 inv' r1 x2 inv' r2 x3 inv'] unfolding r3 by simp
  have ex: "map (map extractFieldsFromCard) (extractions (?A @ ?A @ ?B)) = [[?rec], [?rec], [?rec]]"
    by (simp add: extractions_append extractions_Cons extractions_stableTrace extractions_simps
        extract_Stud_0_00)
  have m: "main ?D (js ''https://shop.example/lumber'') (js ''PT_2025.csv'') initial =
      Some (Inr [],
         \<lparr>world = 3, trace = EvConnect # setupTrace
            @ [EvPage 0 (Goto (js ''https://shop.example/lumber'')), EvDelay 5000]
            @ stableTrace 0 6 @ [EvPage 0 (Screenshot 1)] @ ?A @ ?A
            @ [?X, EvDelay 3000, EvScrollHeight 0, EvCloseBrowser 0, EvProcessExit 0]\<rparr>)"
    using detaching_main[of "[?bad]"] inv'' by simp
  have no: "\<not> (\<forall>env :: nat env. \<forall>page s pd1 s1 c1 s2 pd2 s3 c2 s4 pd3 s5.
          extractCards env page s = (Inr pd1, s1) \<and> invalidEntries pd1 \<noteq> []
          \<and> scrollAndWaitForStability env page 5 (delay env 3000 s1) = Some (Inr c1, s2)
          \<and> extractCards env page s2 = (Inr pd2, s3) \<and> invalidEntries pd2 \<noteq> []
          \<and> scrollAndWaitForStability env page 5 (delay env 3000 s3) = Some (Inr c2, s4)
          \<and> extractCards env page s4 = (Inr pd3, s5) \<and> invalidEntries pd3 \<noteq> [] \<longrightarrow>
          (\<exists>s6. retryLoop env page False 0 [] s = Some (Inr (False, 3, pd3), s6)))"
  proof
    assume "\<forall>env :: nat env. \<forall>page s pd1 s1 c1 s2 pd2 s3 c2 s4 pd3 s5.
          extractCards env page s = (Inr pd1, s1) \<and> invalidEntries pd1 \<noteq> []
          \<and> scrollAndWaitForStability env page 5 (delay env 3000 s1) = Some (Inr c1, s2)
          \<and> extractCards env page s2 = (Inr pd2, s3) \<and> invalidEntries pd2 \<noteq> []
          \<and> scrollAndWaitForStability env page 5 (delay env 3000 s3) = Some (Inr c2, s4)
          \<and> extractCards env page s4 = (Inr pd3, s5) \<and> invalidEntries pd3 \<noteq> [] \<longrightarrow>
          (\<exists>s6. retryLoop env page False 0 [] s = Some (Inr (False, 3, pd3), s6))"
    with x1 r1 x2 r2 x3 inv'
    have "\<exists>s6. retryLoop ?D 0 False 0 [] initial = Some (Inr (False, 3, [?rec]), s6)"
      by blast
    with run show False by simp
  qed
  from run ex inv m no show ?thesis by (intro conjI)
qed


end
